theory Spec2Isabelle
  imports Complex_Main "HOL-Library.AList" "HOL-Library.Log_Nat"
begin

section \<open>The auction room engine of server.js\<close>

text \<open>
  A shallow embedding of the room engine of \<^verbatim>\<open>src/server.js\<close>. One room is a record; every
  endpoint handler and timer callback is a function that takes the room found under the
  request's room identifier and returns its answer together with the room as the handler
  leaves it (the lookup of the room itself, answered with 404 when it fails, is done before).
  Amounts are JavaScript numbers, with the arithmetic of the source (see below). Instants
  (\<^verbatim>\<open>Date.now()\<close>, ISO time stamps) are natural numbers of milliseconds, handed to every
  operation as \<open>now\<close>. The random \<^verbatim>\<open>bidId\<close> of a bid and the \<^verbatim>\<open>soldPrice\<close> annotation of
  a catalog row, which the server writes and never reads, are left out.
  Objects used as dictionaries are association lists in insertion order, the order in which
  \<^verbatim>\<open>Object.values\<close> walks them. \<^verbatim>\<open>Array.prototype.sort\<close> is stable, so it is \<open>sort_key\<close>.
\<close>

subsection \<open>Numbers\<close>

text \<open>
  A budget, a price or a bid amount is a JavaScript number: the handlers check
  \<^verbatim>\<open>typeof x === 'number'\<close> and nothing more, so a fraction, a negative number and a number
  beyond \<^verbatim>\<open>Number.MAX_SAFE_INTEGER\<close> are all taken. A finite number is a rational whose
  significand has 53 bits; the result of an arithmetic operation is the exact result rounded
  to the nearest such number, to the one with the even significand when two are equally
  near. The engine computes with amounts in two places: the subtraction
  \<^verbatim>\<open>team.budget -= price\<close>, and the comparator \<^verbatim>\<open>b.amount - a.amount\<close> of the sorts, of
  which only the sign is used, and the rounded difference of two numbers has the sign of
  the exact one. Comparisons of numbers are exact. \<open>exponent x\<close> is the \<open>e\<close> with
  \<open>2\<^sup>e \<le> x < 2\<^sup>e\<^sup>+\<^sup>1\<close> for a positive \<open>x\<close>. The range of the exponent (overflow to
  \<^verbatim>\<open>Infinity\<close> from \<open>2\<^sup>1\<^sup>0\<^sup>2\<^sup>4\<close> on, gradual underflow below \<open>2\<^sup>-\<^sup>1\<^sup>0\<^sup>2\<^sup>2\<close>) is not
  modelled. The amount of a request is the number that \<^verbatim>\<open>JSON.parse\<close> has made of the
  literal in the body.
\<close>

type_synonym number = rat

definition exponent :: "rat \<Rightarrow> int" where
  "exponent x = (if 1 \<le> x then bitlen \<lfloor>x\<rfloor> - 1 else - bitlen (\<lceil>1 / x\<rceil> - 1))"

definition roundEven :: "rat \<Rightarrow> int" where
  "roundEven q =
     (let f = \<lfloor>q\<rfloor>; d = q - of_int f
      in if d < 1 / 2 then f else if 1 / 2 < d then f + 1 else if even f then f else f + 1)"

definition toDouble :: "rat \<Rightarrow> number" where
  "toDouble x =
     (if x = 0 then 0
      else let u = 2 powi (exponent \<bar>x\<bar> - 52) in of_int (roundEven (x / u)) * u)"

definition jsMinus :: "number \<Rightarrow> number \<Rightarrow> number" where
  "jsMinus a b = toDouble (a - b)"

subsection \<open>Configuration\<close>

definition DEFAULT_BUDGET :: number where
  "DEFAULT_BUDGET = 100000"

definition MAX_PLAYERS_PER_TEAM :: nat where
  "MAX_PLAYERS_PER_TEAM = 15"

definition BIDDING_TIMEOUT :: int where
  "BIDDING_TIMEOUT = 60 * 1000"

definition BLIND_BID_TIMEOUT :: int where
  "BLIND_BID_TIMEOUT = 5 * 60 * 1000"

datatype cycle_type = BAT | AR | BOWL | WK

fun BATCH_CONFIG :: "cycle_type \<Rightarrow> nat" where
  "BATCH_CONFIG BAT = 8"
| "BATCH_CONFIG AR = 5"
| "BATCH_CONFIG BOWL = 8"
| "BATCH_CONFIG WK = 5"

definition CYCLE_ORDER :: "cycle_type list" where
  "CYCLE_ORDER = [BAT, AR, BOWL, WK]"

fun type_name :: "cycle_type \<Rightarrow> string" where
  "type_name BAT = ''BAT''"
| "type_name AR = ''AR''"
| "type_name BOWL = ''BOWL''"
| "type_name WK = ''WK''"

subsection \<open>Data\<close>

record player =
  name :: string
  team :: string
  ptype :: string
  basePrice :: "number option"

record purchased = player +
  boughtPrice :: number
  boughtAt :: nat
  awardedBy :: "string option"

record user =
  username :: string
  budget :: number
  players :: "purchased list"

record bid =
  bidderTeam :: string
  amount :: number
  timestamp :: nat

datatype status = Active | Closed | Sold

datatype bidding_type = Regular | Blind

record bidData =
  playerName :: string
  playerType :: string
  sessionBasePrice :: "number option"
  bids :: "bid list"
  biddingStartTime :: nat
  status :: status
  biddingType :: bidding_type
  lastBidTime :: "nat option"
  closedAt :: "nat option"
  soldTo :: "string option"
  finalPrice :: "number option"
  soldAt :: "nat option"

record batchState =
  currentCycleIndex :: nat
  sentPlayers :: "string set"
  typePointers :: "cycle_type \<Rightarrow> nat"

record room =
  roomId :: string
  users :: "(string \<times> user) list"
  budgetPerUser :: number
  createdAt :: nat
  lastActivity :: nat
  soldPlayers :: "string set"
  currentBids :: "(string \<times> bidData) list"
  blindBids :: "(string \<times> bidData) list"
  batchState :: batchState

datatype error =
  InvalidRequest
  | TeamNotFound
  | PlayerNotFound
  | PlayerAlreadySold
  | SessionNotFound
  | SessionAlreadyActive
  | SessionNotActive
  | DuplicateBid
  | BidTooLow
  | BelowBasePrice
  | BudgetExceeded
  | RosterFull

subsection \<open>The catalog\<close>

text \<open>
  \<^verbatim>\<open>csvPlayers\<close> is the list of rows read at start-up; it is the parameter \<open>cat\<close> of every
  operation. \<^verbatim>\<open>processPlayerData\<close> splits it into the blind pool and the four priced lists.
\<close>

definition blindBidPlayers :: "player list \<Rightarrow> player list" where
  "blindBidPlayers cat = filter (\<lambda>p. basePrice p = None) cat"

definition playersWithBase :: "player list \<Rightarrow> player list" where
  "playersWithBase cat = filter (\<lambda>p. basePrice p \<noteq> None) cat"

definition descBase :: "player \<Rightarrow> number" where
  "descBase p = (case basePrice p of Some b \<Rightarrow> - b | None \<Rightarrow> 0)"

definition mainAuctionPlayers :: "player list \<Rightarrow> cycle_type \<Rightarrow> player list" where
  "mainAuctionPlayers cat T =
     sort_key descBase (filter (\<lambda>p. ptype p = type_name T) (playersWithBase cat))"

definition findPlayer :: "player list \<Rightarrow> string \<Rightarrow> player option" where
  "findPlayer ps pn = find (\<lambda>p. name p = pn) ps"

subsection \<open>Bids\<close>

definition sortBids :: "bid list \<Rightarrow> bid list" where
  "sortBids bs = sort_key (\<lambda>b. - amount b) bs"

definition winningBid :: "bid list \<Rightarrow> bid option" where
  "winningBid bs = (case sortBids bs of [] \<Rightarrow> None | w # _ \<Rightarrow> Some w)"

definition currentHighestBid :: "bid list \<Rightarrow> number" where
  "currentHighestBid bs = (case map amount bs of [] \<Rightarrow> 0 | a # as \<Rightarrow> fold max as a)"

definition newSession :: "string \<Rightarrow> string \<Rightarrow> number option \<Rightarrow> nat \<Rightarrow> bidding_type \<Rightarrow> bidData" where
  "newSession pn ty bp now bt =
     \<lparr>playerName = pn, playerType = ty, sessionBasePrice = bp, bids = [],
      biddingStartTime = now, status = Active, biddingType = bt, lastBidTime = None,
      closedAt = None, soldTo = None, finalPrice = None, soldAt = None\<rparr>"

definition purchase :: "string \<Rightarrow> player \<Rightarrow> number option \<Rightarrow> number \<Rightarrow> nat \<Rightarrow> string option \<Rightarrow> purchased" where
  "purchase pn pl bp price now by =
     \<lparr>name = pn, team = team pl, ptype = ptype pl, basePrice = bp,
      boughtPrice = price, boughtAt = now, awardedBy = by\<rparr>"

definition buy :: "user \<Rightarrow> purchased \<Rightarrow> user" where
  "buy t pp = t\<lparr>budget := jsMinus (budget t) (boughtPrice pp), players := players t @ [pp]\<rparr>"

subsection \<open>Room creation and late join\<close>

definition newUser :: "string \<Rightarrow> number \<Rightarrow> user" where
  "newUser u b = \<lparr>username = u, budget = b, players = []\<rparr>"

definition newBatchState :: batchState where
  "newBatchState = \<lparr>currentCycleIndex = 0, sentPlayers = {}, typePointers = (\<lambda>T. 0)\<rparr>"

definition create_room :: "string \<Rightarrow> string list \<Rightarrow> number option \<Rightarrow> nat \<Rightarrow> error + room" where
  "create_room rid us bpu now =
     (if rid = [] \<or> length us < 2 then Inl InvalidRequest
      else
        let b = (case bpu of None \<Rightarrow> DEFAULT_BUDGET
                 | Some x \<Rightarrow> if x = 0 then DEFAULT_BUDGET else x)
        in Inr \<lparr>roomId = rid,
                users = fold (\<lambda>u acc. AList.update u (newUser u b) acc) us [],
                budgetPerUser = b, createdAt = now, lastActivity = now,
                soldPlayers = {}, currentBids = [], blindBids = [],
                batchState = newBatchState\<rparr>)"

definition join_room :: "nat \<Rightarrow> string \<Rightarrow> room \<Rightarrow> room" where
  "join_room now tn r =
     (case map_of (users r) tn of
        Some t \<Rightarrow> r
      | None \<Rightarrow>
          r\<lparr>users := AList.update tn
                 (newUser tn (if budgetPerUser r = 0 then DEFAULT_BUDGET else budgetPerUser r))
                 (users r),
            lastActivity := now\<rparr>)"

subsection \<open>Direct purchase: POST /select-player\<close>

definition select_player ::
  "player list \<Rightarrow> nat \<Rightarrow> string \<Rightarrow> number \<Rightarrow> string \<Rightarrow> room \<Rightarrow> (error + unit) \<times> room" where
  "select_player cat now pn price tn r =
     (if pn = [] \<or> tn = [] then (Inl InvalidRequest, r)
      else case map_of (users r) tn of
        None \<Rightarrow> (Inl TeamNotFound, r)
      | Some t \<Rightarrow>
          if price > budget t then (Inl BudgetExceeded, r)
          else if length (players t) \<ge> MAX_PLAYERS_PER_TEAM then (Inl RosterFull, r)
          else case findPlayer cat pn of
            None \<Rightarrow> (Inl PlayerNotFound, r)
          | Some pl \<Rightarrow>
              if pn \<in> soldPlayers r then (Inl PlayerAlreadySold, r)
              else (Inr (),
                    r\<lparr>users := AList.update tn
                           (buy t (purchase pn pl (basePrice pl) price now None)) (users r),
                      soldPlayers := insert pn (soldPlayers r),
                      lastActivity := now\<rparr>))"

subsection \<open>Resolution: autoAwardPlayer and autoAwardBlindBidPlayer\<close>

text \<open>
  Both functions return at once unless the session exists and is active. Otherwise they
  mark it closed, sort its bids in place by descending amount, and award the player to the
  first bid of the sorted list when the team and the catalog row are found, the amount is
  within the team's budget and the roster is below the cap.
\<close>

definition soldSession :: "bidData \<Rightarrow> bid \<Rightarrow> nat \<Rightarrow> bidData" where
  "soldSession bd w now =
     bd\<lparr>status := Sold, soldTo := Some (bidderTeam w), finalPrice := Some (amount w),
        soldAt := Some now\<rparr>"

definition autoAwardPlayer :: "player list \<Rightarrow> nat \<Rightarrow> string \<Rightarrow> room \<Rightarrow> room" where
  "autoAwardPlayer cat now pn r =
     (case map_of (currentBids r) pn of
        None \<Rightarrow> r
      | Some bd \<Rightarrow>
          if status bd \<noteq> Active then r
          else
            let closed = bd\<lparr>status := Closed, closedAt := Some now, bids := sortBids (bids bd)\<rparr>;
                r1 = r\<lparr>currentBids := AList.update pn closed (currentBids r)\<rparr>
            in case winningBid (bids bd) of
                 None \<Rightarrow> r1
               | Some w \<Rightarrow>
                   (case map_of (users r) (bidderTeam w) of
                      None \<Rightarrow> r1
                    | Some t \<Rightarrow>
                        (case findPlayer cat pn of
                           None \<Rightarrow> r1
                         | Some pl \<Rightarrow>
                             if amount w \<le> budget t \<and> length (players t) < MAX_PLAYERS_PER_TEAM
                             then r\<lparr>users := AList.update (bidderTeam w)
                                      (buy t (purchase pn pl (basePrice pl) (amount w) now
                                               (Some ''auto_highest_bid''))) (users r),
                                    soldPlayers := insert pn (soldPlayers r),
                                    currentBids :=
                                      AList.update pn (soldSession closed w now) (currentBids r)\<rparr>
                             else r1)))"

definition autoAwardBlindBidPlayer :: "player list \<Rightarrow> nat \<Rightarrow> string \<Rightarrow> room \<Rightarrow> room" where
  "autoAwardBlindBidPlayer cat now pn r =
     (case map_of (blindBids r) pn of
        None \<Rightarrow> r
      | Some bd \<Rightarrow>
          if status bd \<noteq> Active then r
          else
            let closed = bd\<lparr>status := Closed, closedAt := Some now, bids := sortBids (bids bd)\<rparr>;
                r1 = r\<lparr>blindBids := AList.update pn closed (blindBids r)\<rparr>
            in case winningBid (bids bd) of
                 None \<Rightarrow> r1
               | Some w \<Rightarrow>
                   (case map_of (users r) (bidderTeam w) of
                      None \<Rightarrow> r1
                    | Some t \<Rightarrow>
                        (case findPlayer (blindBidPlayers cat) pn of
                           None \<Rightarrow> r1
                         | Some pl \<Rightarrow>
                             if amount w \<le> budget t \<and> length (players t) < MAX_PLAYERS_PER_TEAM
                             then r\<lparr>users := AList.update (bidderTeam w)
                                      (buy t (purchase pn pl None (amount w) now
                                               (Some ''auto_blind_bid''))) (users r),
                                    soldPlayers := insert pn (soldPlayers r),
                                    blindBids :=
                                      AList.update pn (soldSession closed w now) (blindBids r)\<rparr>
                             else r1)))"

text \<open>The callbacks armed by \<^verbatim>\<open>scheduleAutoCloseBidding\<close> and \<^verbatim>\<open>scheduleAutoCloseBlindBidding\<close>.\<close>

definition timer_regular :: "player list \<Rightarrow> nat \<Rightarrow> string \<Rightarrow> room \<Rightarrow> room" where
  "timer_regular cat now pn r =
     (case map_of (currentBids r) pn of
        None \<Rightarrow> r
      | Some bd \<Rightarrow> if status bd = Active then autoAwardPlayer cat now pn r else r)"

definition timer_blind :: "player list \<Rightarrow> nat \<Rightarrow> string \<Rightarrow> room \<Rightarrow> room" where
  "timer_blind cat now pn r =
     (case map_of (blindBids r) pn of
        None \<Rightarrow> r
      | Some bd \<Rightarrow> if status bd = Active then autoAwardBlindBidPlayer cat now pn r else r)"

subsection \<open>Regular sessions: POST /start-bidding and POST /place-bid\<close>

definition start_bidding :: "player list \<Rightarrow> nat \<Rightarrow> string \<Rightarrow> room \<Rightarrow> (error + unit) \<times> room" where
  "start_bidding cat now pn r =
     (if pn = [] then (Inl InvalidRequest, r)
      else case find (\<lambda>p. name p = pn \<and> basePrice p \<noteq> None) cat of
        None \<Rightarrow> (Inl PlayerNotFound, r)
      | Some pl \<Rightarrow>
          if pn \<in> soldPlayers r then (Inl PlayerAlreadySold, r)
          else case map_of (currentBids r) pn of
            Some bd \<Rightarrow> (Inl SessionAlreadyActive, r)
          | None \<Rightarrow>
              (Inr (),
               r\<lparr>currentBids :=
                    AList.update pn (newSession pn (ptype pl) (basePrice pl) now Regular)
                      (currentBids r),
                 lastActivity := now\<rparr>))"

text \<open>
  \<^verbatim>\<open>/place-bid\<close> creates the session of a player that has none (and arms its timer) before it
  checks the session's status, the base price and the highest bid; the room it leaves
  behind holds that session also when one of these later checks rejects the bid.
\<close>

definition place_bid ::
  "player list \<Rightarrow> nat \<Rightarrow> string \<Rightarrow> number \<Rightarrow> string \<Rightarrow> room \<Rightarrow> (error + unit) \<times> room" where
  "place_bid cat now pn amt tn r =
     (if pn = [] \<or> tn = [] then (Inl InvalidRequest, r)
      else case map_of (users r) tn of
        None \<Rightarrow> (Inl TeamNotFound, r)
      | Some t \<Rightarrow>
          if amt > budget t then (Inl BudgetExceeded, r)
          else if length (players t) \<ge> MAX_PLAYERS_PER_TEAM then (Inl RosterFull, r)
          else case findPlayer cat pn of
            None \<Rightarrow> (Inl PlayerNotFound, r)
          | Some pl \<Rightarrow>
              if pn \<in> soldPlayers r then (Inl PlayerAlreadySold, r)
              else
                let (bd, r1) =
                      (case map_of (currentBids r) pn of
                         Some bd \<Rightarrow> (bd, r)
                       | None \<Rightarrow>
                           (newSession pn (ptype pl) (basePrice pl) now Regular,
                            r\<lparr>currentBids :=
                                 AList.update pn
                                   (newSession pn (ptype pl) (basePrice pl) now Regular)
                                   (currentBids r)\<rparr>))
                in if status bd \<noteq> Active then (Inl SessionNotActive, r1)
                   else if (case basePrice pl of None \<Rightarrow> False
                            | Some b \<Rightarrow> b \<noteq> 0 \<and> amt < b)
                     then (Inl BelowBasePrice, r1)
                   else if amt \<le> currentHighestBid (bids bd) then (Inl BidTooLow, r1)
                   else (Inr (),
                         r1\<lparr>currentBids :=
                              AList.update pn
                                (bd\<lparr>bids := bids bd @
                                       [\<lparr>bidderTeam = tn, amount = amt, timestamp = now\<rparr>],
                                    lastBidTime := Some now\<rparr>)
                                (currentBids r1),
                            lastActivity := now\<rparr>))"

subsection \<open>Blind sessions: POST /start-blind-bidding and POST /place-blind-bid\<close>

definition start_blind_bidding ::
  "player list \<Rightarrow> nat \<Rightarrow> string \<Rightarrow> room \<Rightarrow> (error + unit) \<times> room" where
  "start_blind_bidding cat now pn r =
     (if pn = [] then (Inl InvalidRequest, r)
      else case findPlayer (blindBidPlayers cat) pn of
        None \<Rightarrow> (Inl PlayerNotFound, r)
      | Some pl \<Rightarrow>
          if pn \<in> soldPlayers r then (Inl PlayerAlreadySold, r)
          else case map_of (blindBids r) pn of
            Some bd \<Rightarrow> (Inl SessionAlreadyActive, r)
          | None \<Rightarrow>
              (Inr (),
               r\<lparr>blindBids :=
                    AList.update pn (newSession pn (ptype pl) None now Blind) (blindBids r),
                 lastActivity := now\<rparr>))"

definition place_blind_bid ::
  "player list \<Rightarrow> nat \<Rightarrow> string \<Rightarrow> number \<Rightarrow> string \<Rightarrow> room \<Rightarrow> (error + unit) \<times> room" where
  "place_blind_bid cat now pn amt tn r =
     (if pn = [] \<or> tn = [] then (Inl InvalidRequest, r)
      else case map_of (users r) tn of
        None \<Rightarrow> (Inl TeamNotFound, r)
      | Some t \<Rightarrow>
          if amt > budget t then (Inl BudgetExceeded, r)
          else if length (players t) \<ge> MAX_PLAYERS_PER_TEAM then (Inl RosterFull, r)
          else case findPlayer (blindBidPlayers cat) pn of
            None \<Rightarrow> (Inl PlayerNotFound, r)
          | Some pl \<Rightarrow>
              if pn \<in> soldPlayers r then (Inl PlayerAlreadySold, r)
              else
                let (bd, r1) =
                      (case map_of (blindBids r) pn of
                         Some bd \<Rightarrow> (bd, r)
                       | None \<Rightarrow>
                           (newSession pn (ptype pl) None now Blind,
                            r\<lparr>blindBids :=
                                 AList.update pn (newSession pn (ptype pl) None now Blind)
                                   (blindBids r)\<rparr>))
                in if status bd \<noteq> Active then (Inl SessionNotActive, r1)
                   else if find (\<lambda>b. bidderTeam b = tn) (bids bd) \<noteq> None
                     then (Inl DuplicateBid, r1)
                   else (Inr (),
                         r1\<lparr>blindBids :=
                              AList.update pn
                                (bd\<lparr>bids := bids bd @
                                       [\<lparr>bidderTeam = tn, amount = amt, timestamp = now\<rparr>],
                                    lastBidTime := Some now\<rparr>)
                                (blindBids r1),
                            lastActivity := now\<rparr>))"

subsection \<open>Manual close: POST /close-bidding\<close>

text \<open>
  The handler rejects a session that is not active, runs the same award function as the
  timer otherwise, and sorts the session's bids once more for its answer.
\<close>

definition resortSession :: "string \<Rightarrow> (string \<times> bidData) list \<Rightarrow> (string \<times> bidData) list" where
  "resortSession pn tbl =
     (case map_of tbl pn of
        None \<Rightarrow> tbl
      | Some bd \<Rightarrow> AList.update pn (bd\<lparr>bids := sortBids (bids bd)\<rparr>) tbl)"

definition close_bidding ::
  "player list \<Rightarrow> nat \<Rightarrow> string \<Rightarrow> string \<Rightarrow> room \<Rightarrow> (error + unit) \<times> room" where
  "close_bidding cat now pn bt r =
     (if pn = [] \<or> bt = [] then (Inl InvalidRequest, r)
      else if bt = ''regular'' then
        (case map_of (currentBids r) pn of
           None \<Rightarrow> (Inl SessionNotFound, r)
         | Some bd \<Rightarrow>
             if status bd \<noteq> Active then (Inl SessionNotActive, r)
             else
               let r1 = autoAwardPlayer cat now pn r
               in (Inr (), r1\<lparr>currentBids := resortSession pn (currentBids r1)\<rparr>))
      else if bt = ''blind'' then
        (case map_of (blindBids r) pn of
           None \<Rightarrow> (Inl SessionNotFound, r)
         | Some bd \<Rightarrow>
             if status bd \<noteq> Active then (Inl SessionNotActive, r)
             else
               let r1 = autoAwardBlindBidPlayer cat now pn r
               in (Inr (), r1\<lparr>blindBids := resortSession pn (blindBids r1)\<rparr>))
      else (Inl InvalidRequest, r))"

subsection \<open>Batch dispatch: GET /next-batch\<close>

text \<open>
  The loop of the handler walks the current type's list from the type's pointer and stops
  at the end of the list or when the batch is full; a player whose name is in
  \<^verbatim>\<open>sentPlayers\<close> is passed over. The pointer is then set to the start index plus the number
  of players collected. The cycle index starts at zero and is only ever advanced modulo
  the length of the cycle, so in every room that can be reached it is a position of
  \<^verbatim>\<open>CYCLE_ORDER\<close> (lemma \<open>cycleIndex_reachable\<close> below).
\<close>

fun scanBatch :: "nat \<Rightarrow> player list \<Rightarrow> player list \<Rightarrow> string set \<Rightarrow> player list \<times> string set" where
  "scanBatch n [] acc sent = (acc, sent)"
| "scanBatch n (p # ps) acc sent =
     (if length acc < n
      then (if name p \<notin> sent
            then scanBatch n ps (acc @ [p]) (insert (name p) sent)
            else scanBatch n ps acc sent)
      else (acc, sent))"

datatype batch_response =
  AuctionComplete
  | Batch (batch_players: "player list") (batch_currentType: cycle_type)
      (batch_nextType: cycle_type) (batch_batchSize: nat) (batch_totalSentPlayers: nat)

definition allTypesExhausted :: "player list \<Rightarrow> (cycle_type \<Rightarrow> nat) \<Rightarrow> bool" where
  "allTypesExhausted cat ptrs =
     list_all (\<lambda>T. ptrs T \<ge> length (mainAuctionPlayers cat T)) CYCLE_ORDER"

definition next_batch :: "player list \<Rightarrow> nat \<Rightarrow> room \<Rightarrow> batch_response \<times> room" where
  "next_batch cat now r =
     (let bs = batchState r;
          currentType = CYCLE_ORDER ! currentCycleIndex bs;
          batchSize = BATCH_CONFIG currentType;
          availablePlayers = mainAuctionPlayers cat currentType;
          startIndex = typePointers bs currentType;
          (nextBatch, sent) =
             scanBatch batchSize (drop startIndex availablePlayers) [] (sentPlayers bs);
          ptrs = (typePointers bs)(currentType := startIndex + length nextBatch);
          bs1 = bs\<lparr>sentPlayers := sent, typePointers := ptrs\<rparr>
      in if nextBatch = [] \<or> ptrs currentType \<ge> length availablePlayers
         then
           let bs2 = bs1\<lparr>currentCycleIndex :=
                          (currentCycleIndex bs + 1) mod length CYCLE_ORDER\<rparr>
           in if allTypesExhausted cat ptrs \<and> nextBatch = []
              then (AuctionComplete, r\<lparr>batchState := bs2\<rparr>)
              else (Batch nextBatch currentType (CYCLE_ORDER ! currentCycleIndex bs2)
                      batchSize (card sent),
                    r\<lparr>batchState := bs2, lastActivity := now\<rparr>)
         else (Batch nextBatch currentType (CYCLE_ORDER ! currentCycleIndex bs1)
                 batchSize (card sent),
               r\<lparr>batchState := bs1, lastActivity := now\<rparr>))"

subsection \<open>Queries\<close>

text \<open>
  The queries sort the bids of the sessions they show in place and stamp the room's last
  activity, so they are operations on the room as well. The answers of the two queries on
  blind sessions are modelled in full; of \<^verbatim>\<open>/player-bids\<close>, \<^verbatim>\<open>/bidding-history\<close>,
  \<^verbatim>\<open>/room-state\<close> and \<^verbatim>\<open>/room-data\<close> only the effect on the room.
\<close>

definition updateRoomActivity :: "nat \<Rightarrow> room \<Rightarrow> room" where
  "updateRoomActivity now r = r\<lparr>lastActivity := now\<rparr>"

definition timeRemaining :: "int \<Rightarrow> nat \<Rightarrow> nat \<Rightarrow> int" where
  "timeRemaining timeout now start = max 0 (timeout - (int now - int start))"

definition headOpt :: "'a list \<Rightarrow> 'a option" where
  "headOpt xs = (case xs of [] \<Rightarrow> None | x # _ \<Rightarrow> Some x)"

datatype blind_bids_response =
  BlindNotStarted string
  | BlindHidden (bh_playerName: string) (bh_playerType: string) (bh_totalBids: nat)
      (bh_biddingStatus: status) (bh_biddingType: bidding_type) (bh_biddingStartTime: nat)
      (bh_timeRemaining: int)
  | BlindRevealed (br_playerName: string) (br_playerType: string) (br_bids: "bid list")
      (br_highestBid: "bid option") (br_totalBids: nat) (br_biddingStatus: status)
      (br_biddingType: bidding_type) (br_biddingStartTime: nat) (br_lastBidTime: "nat option")
      (br_closedAt: "nat option") (br_soldTo: "string option") (br_finalPrice: "number option")

definition blind_bids :: "nat \<Rightarrow> string \<Rightarrow> room \<Rightarrow> blind_bids_response \<times> room" where
  "blind_bids now pn r =
     (case map_of (blindBids r) pn of
        None \<Rightarrow> (BlindNotStarted pn, r)
      | Some bd \<Rightarrow>
          if status bd = Active
          then (BlindHidden pn (playerType bd) (length (bids bd)) (status bd) (biddingType bd)
                  (biddingStartTime bd)
                  (timeRemaining BLIND_BID_TIMEOUT now (biddingStartTime bd)),
                r)
          else
            let sortedBids = sortBids (bids bd)
            in (BlindRevealed pn (playerType bd) sortedBids (headOpt sortedBids)
                  (length (bids bd)) (status bd) (biddingType bd) (biddingStartTime bd)
                  (lastBidTime bd) (closedAt bd) (soldTo bd) (finalPrice bd),
                r\<lparr>blindBids := AList.update pn (bd\<lparr>bids := sortedBids\<rparr>) (blindBids r),
                  lastActivity := now\<rparr>))"

datatype regular_entry =
  RegularEntry (re_playerName: string) (re_playerType: string) (re_basePrice: "number option")
    (re_highestBid: "bid option") (re_totalBids: nat) (re_biddingStartTime: nat)
    (re_lastBidTime: "nat option") (re_timeRemaining: int) (re_allBids: "bid list")

datatype blind_entry =
  BlindEntry (be_playerName: string) (be_playerType: string) (be_totalBids: nat)
    (be_biddingStartTime: nat) (be_timeRemaining: int)

datatype room_bids_response =
  RoomBids (rb_regularBids: "regular_entry list") (rb_blindBids: "blind_entry list")
    (rb_totalActiveRegularBids: nat) (rb_totalActiveBlindBids: nat)

definition regularEntry :: "nat \<Rightarrow> bidData \<Rightarrow> regular_entry" where
  "regularEntry now bd =
     RegularEntry (playerName bd) (playerType bd) (sessionBasePrice bd)
       (headOpt (sortBids (bids bd))) (length (bids bd)) (biddingStartTime bd) (lastBidTime bd)
       (timeRemaining BIDDING_TIMEOUT now (biddingStartTime bd)) (sortBids (bids bd))"

definition blindEntry :: "nat \<Rightarrow> bidData \<Rightarrow> blind_entry" where
  "blindEntry now bd =
     BlindEntry (playerName bd) (playerType bd) (length (bids bd)) (biddingStartTime bd)
       (timeRemaining BLIND_BID_TIMEOUT now (biddingStartTime bd))"

definition latestFirst :: "regular_entry \<Rightarrow> int" where
  "latestFirst e =
     - int (case re_lastBidTime e of Some t \<Rightarrow> t | None \<Rightarrow> re_biddingStartTime e)"

definition sortActive :: "(string \<times> bidData) list \<Rightarrow> (string \<times> bidData) list" where
  "sortActive tbl =
     map (\<lambda>(k, bd). if status bd = Active then (k, bd\<lparr>bids := sortBids (bids bd)\<rparr>) else (k, bd))
       tbl"

definition sortTerminal :: "(string \<times> bidData) list \<Rightarrow> (string \<times> bidData) list" where
  "sortTerminal tbl =
     map (\<lambda>(k, bd). if status bd = Sold \<or> status bd = Closed
                     then (k, bd\<lparr>bids := sortBids (bids bd)\<rparr>) else (k, bd))
       tbl"

definition room_bids :: "nat \<Rightarrow> room \<Rightarrow> room_bids_response \<times> room" where
  "room_bids now r =
     (let regularBids =
            map (regularEntry now) (filter (\<lambda>bd. status bd = Active) (map snd (currentBids r)));
          blindBidsOut =
            map (blindEntry now) (filter (\<lambda>bd. status bd = Active) (map snd (blindBids r)))
      in (RoomBids (sort_key latestFirst regularBids)
            (sort_key (\<lambda>e. - int (be_biddingStartTime e)) blindBidsOut)
            (length regularBids) (length blindBidsOut),
          r\<lparr>currentBids := sortActive (currentBids r), lastActivity := now\<rparr>))"

definition player_bids :: "nat \<Rightarrow> string \<Rightarrow> room \<Rightarrow> room" where
  "player_bids now pn r =
     (case map_of (currentBids r) pn of
        None \<Rightarrow> r
      | Some bd \<Rightarrow>
          r\<lparr>currentBids := AList.update pn (bd\<lparr>bids := sortBids (bids bd)\<rparr>) (currentBids r),
            lastActivity := now\<rparr>)"

definition bidding_history :: "nat \<Rightarrow> room \<Rightarrow> room" where
  "bidding_history now r =
     r\<lparr>currentBids := sortTerminal (currentBids r),
       blindBids := sortTerminal (blindBids r),
       lastActivity := now\<rparr>"

subsection \<open>Runs of a room\<close>

text \<open>
  A timer callback is an operation like a request: the model lets it run at any moment, which
  covers every moment at which the timer of the source can fire.
\<close>

datatype op =
  NextBatch
  | SelectPlayer string number string
  | PlaceBid string number string
  | PlaceBlindBid string number string
  | StartBidding string
  | StartBlindBidding string
  | CloseBidding string string
  | TimerRegular string
  | TimerBlind string
  | JoinRoom string
  | PlayerBids string
  | BlindBids string
  | RoomBidsQuery
  | BiddingHistory
  | RoomState

fun step :: "player list \<Rightarrow> nat \<Rightarrow> op \<Rightarrow> room \<Rightarrow> room" where
  "step cat now NextBatch r = snd (next_batch cat now r)"
| "step cat now (SelectPlayer pn price tn) r = snd (select_player cat now pn price tn r)"
| "step cat now (PlaceBid pn amt tn) r = snd (place_bid cat now pn amt tn r)"
| "step cat now (PlaceBlindBid pn amt tn) r = snd (place_blind_bid cat now pn amt tn r)"
| "step cat now (StartBidding pn) r = snd (start_bidding cat now pn r)"
| "step cat now (StartBlindBidding pn) r = snd (start_blind_bidding cat now pn r)"
| "step cat now (CloseBidding pn bt) r = snd (close_bidding cat now pn bt r)"
| "step cat now (TimerRegular pn) r = timer_regular cat now pn r"
| "step cat now (TimerBlind pn) r = timer_blind cat now pn r"
| "step cat now (JoinRoom tn) r = join_room now tn r"
| "step cat now (PlayerBids pn) r = player_bids now pn r"
| "step cat now (BlindBids pn) r = snd (blind_bids now pn r)"
| "step cat now RoomBidsQuery r = snd (room_bids now r)"
| "step cat now BiddingHistory r = bidding_history now r"
| "step cat now RoomState r = updateRoomActivity now r"

inductive reachable :: "player list \<Rightarrow> room \<Rightarrow> bool" for cat :: "player list" where
  created: "create_room rid us bpu now = Inr r \<Longrightarrow> reachable cat r"
| stepped: "reachable cat r \<Longrightarrow> reachable cat (step cat now opn r)"

fun run :: "player list \<Rightarrow> (nat \<times> op) list \<Rightarrow> room \<Rightarrow> room" where
  "run cat [] r = r"
| "run cat ((now, opn) # rest) r = run cat rest (step cat now opn r)"

section \<open>Vocabulary of the properties\<close>

subsection \<open>The ledger\<close>

text \<open>
  The remaining budgets of a room's teams, the purchase prices recorded in their rosters,
  and the total the room started with: the number of teams times the configured budget.
\<close>

definition totalBudget :: "room \<Rightarrow> number" where
  "totalBudget r = sum_list (map (\<lambda>(k, u). budget u) (users r))"

definition totalSpent :: "room \<Rightarrow> number" where
  "totalSpent r = sum_list (map (\<lambda>(k, u). sum_list (map boughtPrice (players u))) (users r))"

definition initialTotalBudget :: "room \<Rightarrow> number" where
  "initialTotalBudget r = of_nat (length (users r)) * budgetPerUser r"

definition worth :: "user \<Rightarrow> number" where
  "worth u = budget u + sum_list (map boughtPrice (players u))"

definition conserved :: "room \<Rightarrow> bool" where
  "conserved r \<longleftrightarrow> budgetPerUser r \<noteq> 0 \<and> totalBudget r + totalSpent r = initialTotalBudget r"

text \<open>
  What one operation may do to the teams of a room: nothing, one purchase by one team (the
  price of the record appended to its roster subtracted from its budget by the machine), or
  one team joining with the configured budget.
\<close>

definition usersChange :: "room \<Rightarrow> room \<Rightarrow> bool" where
  "usersChange r r' \<longleftrightarrow>
     budgetPerUser r' = budgetPerUser r \<and>
     (users r' = users r
      \<or> (\<exists>tn t pp. map_of (users r) tn = Some t \<and> users r' = AList.update tn (buy t pp) (users r))
      \<or> (\<exists>tn. map_of (users r) tn = None \<and>
            users r' = AList.update tn
              (newUser tn (if budgetPerUser r = 0 then DEFAULT_BUDGET else budgetPerUser r))
              (users r)))"

text \<open>
  A number is whole when it has no fractional part, and safe when it is whole and of
  magnitude below \<open>2\<^sup>5\<^sup>3\<close>. \<open>amountOf\<close> is the amount a request carries;
  \<open>heldAmounts\<close> are the amounts of the bids held by the sessions of a room.
\<close>

definition whole :: "number \<Rightarrow> bool" where
  "whole x \<longleftrightarrow> of_int \<lfloor>x\<rfloor> = x"

definition safe :: "number \<Rightarrow> bool" where
  "safe x \<longleftrightarrow> whole x \<and> \<bar>x\<bar> < 2 ^ 53"

fun amountOf :: "op \<Rightarrow> number option" where
  "amountOf (SelectPlayer pn price tn) = Some price"
| "amountOf (PlaceBid pn amt tn) = Some amt"
| "amountOf (PlaceBlindBid pn amt tn) = Some amt"
| "amountOf opn = None"

definition wholeAmount :: "op \<Rightarrow> bool" where
  "wholeAmount opn = (case amountOf opn of None \<Rightarrow> True | Some x \<Rightarrow> whole x \<and> 0 \<le> x)"

definition tableAmounts :: "(string \<times> bidData) list \<Rightarrow> number set" where
  "tableAmounts tbl = (\<Union>(k, bd) \<in> set tbl. amount ` set (bids bd))"

definition heldAmounts :: "room \<Rightarrow> number set" where
  "heldAmounts r = tableAmounts (currentBids r) \<union> tableAmounts (blindBids r)"

text \<open>
  The same change of the teams with the arithmetic of the integers: a purchase within the
  buyer's budget, which debits the budget by exactly the price of the record appended.
\<close>

definition ledgerChange :: "room \<Rightarrow> room \<Rightarrow> bool" where
  "ledgerChange r r' \<longleftrightarrow>
     budgetPerUser r' = budgetPerUser r \<and>
     (users r' = users r
      \<or> (\<exists>tn t pp. map_of (users r) tn = Some t \<and> boughtPrice pp \<le> budget t \<and>
            users r' =
              AList.update tn
                (t\<lparr>budget := budget t - boughtPrice pp, players := players t @ [pp]\<rparr>) (users r))
      \<or> (\<exists>tn. map_of (users r) tn = None \<and>
            users r' = AList.update tn
              (newUser tn (if budgetPerUser r = 0 then DEFAULT_BUDGET else budgetPerUser r))
              (users r)))"

text \<open>
  The rooms in which the subtraction of a price is exact: the configured budget and every
  team's budget are safe, and every bid held is a whole number that is not negative. A
  purchase made by an operation takes its price from the request or from a bid held.
\<close>

definition exactLedger :: "room \<Rightarrow> bool" where
  "exactLedger r \<longleftrightarrow>
     safe (budgetPerUser r)
     \<and> (\<forall>(k, u) \<in> set (users r). safe (budget u))
     \<and> (\<forall>x \<in> heldAmounts r. whole x \<and> 0 \<le> x)"

definition bought :: "room \<Rightarrow> op \<Rightarrow> room \<Rightarrow> bool" where
  "bought r opn r' \<longleftrightarrow>
     (\<exists>tn t pp. map_of (users r) tn = Some t \<and> boughtPrice pp \<le> budget t
        \<and> boughtPrice pp \<in> heldAmounts r \<union> set_option (amountOf opn)
        \<and> users r' = AList.update tn (buy t pp) (users r))"

subsection \<open>Sessions of either kind\<close>

definition sessionOf :: "bidding_type \<Rightarrow> room \<Rightarrow> string \<Rightarrow> bidData option" where
  "sessionOf k r pn = (case k of Regular \<Rightarrow> map_of (currentBids r) pn
                       | Blind \<Rightarrow> map_of (blindBids r) pn)"

definition pool :: "bidding_type \<Rightarrow> player list \<Rightarrow> player list" where
  "pool k cat = (case k of Regular \<Rightarrow> cat | Blind \<Rightarrow> blindBidPlayers cat)"

definition resolve :: "player list \<Rightarrow> nat \<Rightarrow> bidding_type \<Rightarrow> string \<Rightarrow> room \<Rightarrow> room" where
  "resolve cat now k pn r = (case k of Regular \<Rightarrow> autoAwardPlayer cat now pn r
                             | Blind \<Rightarrow> autoAwardBlindBidPlayer cat now pn r)"

definition timerFires :: "player list \<Rightarrow> nat \<Rightarrow> bidding_type \<Rightarrow> string \<Rightarrow> room \<Rightarrow> room" where
  "timerFires cat now k pn r = (case k of Regular \<Rightarrow> timer_regular cat now pn r
                                | Blind \<Rightarrow> timer_blind cat now pn r)"

definition typeParam :: "bidding_type \<Rightarrow> string" where
  "typeParam k = (case k of Regular \<Rightarrow> ''regular'' | Blind \<Rightarrow> ''blind'')"

definition tableOk :: "player list \<Rightarrow> (string \<times> user) list \<Rightarrow> (string \<times> bidData) list \<Rightarrow> bool" where
  "tableOk ps us tbl \<longleftrightarrow>
     (\<forall>pn bd. map_of tbl pn = Some bd \<longrightarrow>
        pn \<noteq> [] \<and> findPlayer ps pn \<noteq> None
        \<and> (\<forall>b \<in> set (bids bd). map_of us (bidderTeam b) \<noteq> None))"

definition sessionsOk :: "player list \<Rightarrow> room \<Rightarrow> bool" where
  "sessionsOk cat r \<longleftrightarrow>
     tableOk cat (users r) (currentBids r) \<and> tableOk (blindBidPlayers cat) (users r) (blindBids r)"

text \<open>
  The outcome of resolving an active session: the bid, team and catalog row of the award
  when the award is made, and the session as it is left closed.
\<close>

definition awardee :: "player list \<Rightarrow> room \<Rightarrow> string \<Rightarrow> bidData \<Rightarrow> (bid \<times> user \<times> player) option" where
  "awardee ps r pn bd =
     (case winningBid (bids bd) of
        None \<Rightarrow> None
      | Some w \<Rightarrow>
          (case map_of (users r) (bidderTeam w) of
             None \<Rightarrow> None
           | Some t \<Rightarrow>
               (case findPlayer ps pn of
                  None \<Rightarrow> None
                | Some pl \<Rightarrow>
                    if amount w \<le> budget t \<and> length (players t) < MAX_PLAYERS_PER_TEAM
                    then Some (w, t, pl) else None)))"

definition closedSession :: "bidData \<Rightarrow> nat \<Rightarrow> bidData" where
  "closedSession bd now = bd\<lparr>status := Closed, closedAt := Some now, bids := sortBids (bids bd)\<rparr>"

definition resolvedSession :: "player list \<Rightarrow> room \<Rightarrow> string \<Rightarrow> bidData \<Rightarrow> nat \<Rightarrow> bidData" where
  "resolvedSession ps r pn bd now =
     (case awardee ps r pn bd of
        None \<Rightarrow> closedSession bd now
      | Some (w, t, pl) \<Rightarrow> soldSession (closedSession bd now) w now)"

text \<open>The roster record written by the award function of each kind of session.\<close>

definition awardRecord :: "bidding_type \<Rightarrow> string \<Rightarrow> player \<Rightarrow> bid \<Rightarrow> nat \<Rightarrow> purchased" where
  "awardRecord k pn pl w now =
     (case k of
        Regular \<Rightarrow> purchase pn pl (basePrice pl) (amount w) now (Some ''auto_highest_bid'')
      | Blind \<Rightarrow> purchase pn pl None (amount w) now (Some ''auto_blind_bid''))"

text \<open>What a resolution can touch: the teams, the sold set and the session itself.\<close>

definition outcome :: "bidding_type \<Rightarrow> room \<Rightarrow> string \<Rightarrow> (string \<times> user) list \<times> string set \<times> bidData option" where
  "outcome k r pn = (users r, soldPlayers r, sessionOf k r pn)"

text \<open>
  The two ways in which a resolution can leave a room, written out field by field. A sale
  to the team \<open>t\<close> of the bid \<open>w\<close>: the amount is subtracted from the team's budget, the record
  of the purchase is appended to its roster, the player's name enters the sold set, and the
  session is sold to the team at the amount of the bid. No sale: the teams and the sold set
  are as they were and the session is closed. In both the bids of the session are left
  sorted.
\<close>

definition sale ::
  "bidding_type \<Rightarrow> string \<Rightarrow> nat \<Rightarrow> bid \<Rightarrow> user \<Rightarrow> player \<Rightarrow> bidData \<Rightarrow> room \<Rightarrow> room \<Rightarrow> bool" where
  "sale k pn now w t pl bd r r' \<longleftrightarrow>
     users r' =
       AList.update (bidderTeam w)
         (t\<lparr>budget := jsMinus (budget t) (amount w),
            players := players t @
              [\<lparr>name = pn, team = team pl, ptype = ptype pl,
                basePrice = (case k of Regular \<Rightarrow> basePrice pl | Blind \<Rightarrow> None),
                boughtPrice = amount w, boughtAt = now,
                awardedBy = Some (case k of Regular \<Rightarrow> ''auto_highest_bid''
                                  | Blind \<Rightarrow> ''auto_blind_bid'')\<rparr>]\<rparr>)
         (users r)
     \<and> soldPlayers r' = insert pn (soldPlayers r)
     \<and> sessionOf k r' pn =
         Some (bd\<lparr>bids := sortBids (bids bd), status := Sold, closedAt := Some now,
                 soldTo := Some (bidderTeam w), finalPrice := Some (amount w),
                 soldAt := Some now\<rparr>)"

definition noSale :: "bidding_type \<Rightarrow> string \<Rightarrow> nat \<Rightarrow> bidData \<Rightarrow> room \<Rightarrow> room \<Rightarrow> bool" where
  "noSale k pn now bd r r' \<longleftrightarrow>
     users r' = users r \<and> soldPlayers r' = soldPlayers r
     \<and> sessionOf k r' pn =
         Some (bd\<lparr>bids := sortBids (bids bd), status := Closed, closedAt := Some now\<rparr>)"


subsection \<open>A small catalog and room\<close>

definition demoCat :: "player list" where
  "demoCat = [\<lparr>name = ''P'', team = ''X'', ptype = ''BAT'', basePrice = Some 50000\<rparr>,
              \<lparr>name = ''Q'', team = ''Y'', ptype = ''BOWL'', basePrice = None\<rparr>]"

definition demoRoom :: room where
  "demoRoom =
     \<lparr>roomId = ''R'',
      users = [(''A'', newUser ''A'' 1000000), (''B'', newUser ''B'' 1000000)],
      budgetPerUser = 1000000, createdAt = 0, lastActivity = 0, soldPlayers = {},
      currentBids = [], blindBids = [], batchState = newBatchState\<rparr>"

definition demoBought :: room where
  "demoBought = step demoCat 1 (SelectPlayer ''P'' 60000 ''A'') demoRoom"

text \<open>
  Two teams with 1,000,000 each; team A bids 100,000 and team B 150,000 on a player with
  base price 50,000; then the timer fires.
\<close>

definition demoBidding :: room where
  "demoBidding =
     step demoCat 2 (PlaceBid ''P'' 150000 ''B'') (step demoCat 1 (PlaceBid ''P'' 100000 ''A'') demoRoom)"

definition demoSession :: bidData where
  "demoSession =
     \<lparr>playerName = ''P'', playerType = ''BAT'', sessionBasePrice = Some 50000,
      bids = [\<lparr>bidderTeam = ''A'', amount = 100000, timestamp = 1\<rparr>,
              \<lparr>bidderTeam = ''B'', amount = 150000, timestamp = 2\<rparr>],
      biddingStartTime = 1, status = Active, biddingType = Regular, lastBidTime = Some 2,
      closedAt = None, soldTo = None, finalPrice = None, soldAt = None\<rparr>"

definition demoResolved :: room where
  "demoResolved = step demoCat 3 (TimerRegular ''P'') demoBidding"

text \<open>The same two teams with a budget of \<open>10\<^sup>1\<^sup>7\<close> each; team A buys a player for 1.\<close>

definition demoBig :: room where
  "demoBig =
     \<lparr>roomId = ''R'',
      users = [(''A'', newUser ''A'' 100000000000000000), (''B'', newUser ''B'' 100000000000000000)],
      budgetPerUser = 100000000000000000, createdAt = 0, lastActivity = 0, soldPlayers = {},
      currentBids = [], blindBids = [], batchState = newBatchState\<rparr>"

definition demoBigBought :: room where
  "demoBigBought = step demoCat 1 (SelectPlayer ''P'' 1 ''A'') demoBig"

text \<open>
  Team B bids 100,000 on the player and team A 150,000; team A then spends 900,000 on
  another player, so that it cannot pay its bid when the timer fires.
\<close>

definition demoOutbid :: "(nat \<times> op) list" where
  "demoOutbid = [(1, PlaceBid ''P'' 100000 ''B''), (2, PlaceBid ''P'' 150000 ''A''),
                 (3, SelectPlayer ''Q'' 900000 ''A'')]"

definition demoOutbidSession :: bidData where
  "demoOutbidSession =
     \<lparr>playerName = ''P'', playerType = ''BAT'', sessionBasePrice = Some 50000,
      bids = [\<lparr>bidderTeam = ''B'', amount = 100000, timestamp = 1\<rparr>,
              \<lparr>bidderTeam = ''A'', amount = 150000, timestamp = 2\<rparr>],
      biddingStartTime = 1, status = Active, biddingType = Regular, lastBidTime = Some 2,
      closedAt = None, soldTo = None, finalPrice = None, soldAt = None\<rparr>"

definition demoSpent :: room where
  "demoSpent =
     demoRoom
       \<lparr>users := [(''A'', \<lparr>username = ''A'', budget = 100000,
                    players = [\<lparr>name = ''Q'', team = ''Y'', ptype = ''BOWL'',
                                basePrice = None, boughtPrice = 900000, boughtAt = 3,
                                awardedBy = None\<rparr>]\<rparr>),
                  (''B'', newUser ''B'' 1000000)],
        soldPlayers := {''Q''}, currentBids := [(''P'', demoOutbidSession)],
        lastActivity := 3\<rparr>"


subsection \<open>Bids accepted along a run\<close>

text \<open>
  The bids held by a player's regular session (none when there is no session), the amounts
  of the regular bids accepted for a player along a run, in the order of acceptance, and
  the checks that \<^verbatim>\<open>/place-bid\<close> makes before it compares the amount with the highest bid.
\<close>

definition regularBidsOf :: "room \<Rightarrow> string \<Rightarrow> bid list" where
  "regularBidsOf r pn = (case map_of (currentBids r) pn of None \<Rightarrow> [] | Some bd \<Rightarrow> bids bd)"

fun acceptedBids :: "player list \<Rightarrow> string \<Rightarrow> (nat \<times> op) list \<Rightarrow> room \<Rightarrow> number list" where
  "acceptedBids cat pn [] r = []"
| "acceptedBids cat pn ((now, opn) # rest) r =
     (case opn of
        PlaceBid pn' amt tn \<Rightarrow>
          if pn' = pn \<and> fst (place_bid cat now pn' amt tn r) = Inr () then [amt] else []
      | _ \<Rightarrow> [])
     @ acceptedBids cat pn rest (step cat now opn r)"

definition passesEarlierChecks :: "player list \<Rightarrow> room \<Rightarrow> string \<Rightarrow> number \<Rightarrow> string \<Rightarrow> bool" where
  "passesEarlierChecks cat r pn amt tn \<longleftrightarrow>
     pn \<noteq> [] \<and> tn \<noteq> []
     \<and> (\<exists>t pl. map_of (users r) tn = Some t \<and> amt \<le> budget t
           \<and> length (players t) < MAX_PLAYERS_PER_TEAM
           \<and> findPlayer cat pn = Some pl \<and> pn \<notin> soldPlayers r
           \<and> (\<forall>b. basePrice pl = Some b \<longrightarrow> b = 0 \<or> b \<le> amt))
     \<and> (\<forall>bd. map_of (currentBids r) pn = Some bd \<longrightarrow> status bd = Active)"

text \<open>Three bids on one player, the third a tie with the second.\<close>

definition demoBids :: "(nat \<times> op) list" where
  "demoBids = [(1, PlaceBid ''P'' 100000 ''A''), (2, PlaceBid ''P'' 150000 ''B''),
               (3, PlaceBid ''P'' 150000 ''A'')]"

text \<open>
  The same for blind sessions: the bids held by a player's blind session, whether a session
  can still take bids, and the blind bids accepted for a player along a run, in the order
  in which they were received.
\<close>

definition blindBidsOf :: "room \<Rightarrow> string \<Rightarrow> bid list" where
  "blindBidsOf r pn = (case map_of (blindBids r) pn of None \<Rightarrow> [] | Some bd \<Rightarrow> bids bd)"

definition openForBids :: "bidData option \<Rightarrow> bool" where
  "openForBids s = (case s of None \<Rightarrow> True | Some bd \<Rightarrow> status bd = Active)"

fun blindArrivals :: "player list \<Rightarrow> string \<Rightarrow> (nat \<times> op) list \<Rightarrow> room \<Rightarrow> bid list" where
  "blindArrivals cat pn [] r = []"
| "blindArrivals cat pn ((now, opn) # rest) r =
     (case opn of
        PlaceBlindBid pn' amt tn \<Rightarrow>
          if pn' = pn \<and> fst (place_blind_bid cat now pn' amt tn r) = Inr ()
          then [\<lparr>bidderTeam = tn, amount = amt, timestamp = now\<rparr>] else []
      | _ \<Rightarrow> [])
     @ blindArrivals cat pn rest (step cat now opn r)"

text \<open>
  What an operation other than an accepted blind bid may do to a player's blind session:
  leave it, open it without bids, or leave it closed or sold.
\<close>

definition blindKept :: "room \<Rightarrow> room \<Rightarrow> string \<Rightarrow> bool" where
  "blindKept r r' pn \<longleftrightarrow>
     map_of (blindBids r') pn = map_of (blindBids r) pn
     \<or> (map_of (blindBids r) pn = None
         \<and> (\<exists>bd'. map_of (blindBids r') pn = Some bd' \<and> bids bd' = []))
     \<or> (\<exists>bd'. map_of (blindBids r') pn = Some bd' \<and> status bd' \<noteq> Active)"

text \<open>Two teams bid the same amount on a blind-pool player, team A first.\<close>

definition demoTie :: "(nat \<times> op) list" where
  "demoTie = [(1, StartBlindBidding ''Q''), (2, PlaceBlindBid ''Q'' 200000 ''A''),
              (3, PlaceBlindBid ''Q'' 200000 ''B'')]"

definition demoTieSession :: bidData where
  "demoTieSession =
     \<lparr>playerName = ''Q'', playerType = ''BOWL'', sessionBasePrice = None,
      bids = [\<lparr>bidderTeam = ''A'', amount = 200000, timestamp = 2\<rparr>,
              \<lparr>bidderTeam = ''B'', amount = 200000, timestamp = 3\<rparr>],
      biddingStartTime = 1, status = Active, biddingType = Blind, lastBidTime = Some 3,
      closedAt = None, soldTo = None, finalPrice = None, soldAt = None\<rparr>"

text \<open>The number of roster records, over all teams of a room, that carry a player's name.\<close>

definition recordsFor :: "room \<Rightarrow> string \<Rightarrow> nat" where
  "recordsFor r pn =
     length (filter (\<lambda>pp. name pp = pn) (concat (map (\<lambda>(k, u). players u) (users r))))"

text \<open>
  A regular session is opened for a player and team A bids; team B then buys the player
  directly.
\<close>

definition demoDouble :: "(nat \<times> op) list" where
  "demoDouble = [(1, StartBidding ''P''), (2, PlaceBid ''P'' 100000 ''A''),
                 (3, SelectPlayer ''P'' 60000 ''B'')]"

subsection \<open>What an observer of blind sessions cannot tell apart\<close>

text \<open>
  Two rooms have the same view when they agree on everything but the amounts of the bids
  held by their active blind sessions: the same sessions, bidders, time stamps and counts.
\<close>

definition hideAmounts :: "bidData \<Rightarrow> bidData" where
  "hideAmounts bd =
     (if status bd = Active then bd\<lparr>bids := map (\<lambda>b. b\<lparr>amount := 0\<rparr>) (bids bd)\<rparr> else bd)"

definition blindView :: "room \<Rightarrow> room" where
  "blindView r = r\<lparr>blindBids := map (\<lambda>(k, bd). (k, hideAmounts bd)) (blindBids r)\<rparr>"

text \<open>
  The room of the tie with other amounts in the two blind bids, and the room of the tie
  after the timer of the blind session has fired.
\<close>

definition demoOther :: room where
  "demoOther =
     demoRoom
       \<lparr>blindBids :=
          [(''Q'', demoTieSession
                     \<lparr>bids := [\<lparr>bidderTeam = ''A'', amount = 300000, timestamp = 2\<rparr>,
                               \<lparr>bidderTeam = ''B'', amount = 100000, timestamp = 3\<rparr>]\<rparr>)],
        lastActivity := 3\<rparr>"

definition demoTieClosed :: room where
  "demoTieClosed = step demoCat 9 (TimerBlind ''Q'') (run demoCat demoTie demoRoom)"


subsection \<open>Persistence: saveRoomsToDB and loadRoomsFromDB\<close>

text \<open>
  \<^verbatim>\<open>saveRoomsToDB\<close> hands the table of rooms to the \<^verbatim>\<open>JSONFile\<close> adapter of lowdb, which
  writes \<^verbatim>\<open>JSON.stringify\<close> of it; \<^verbatim>\<open>loadRoomsFromDB\<close> takes what \<^verbatim>\<open>JSON.parse\<close> reads back.
  The server adds no conversion of its own, so the round trip is that of JavaScript:
  \<^verbatim>\<open>JSON.stringify\<close> walks the enumerable own properties of an object, a \<^verbatim>\<open>Set\<close> has none
  and is written as \<^verbatim>\<open>{}\<close>, a property whose value is undefined is left out, and
  \<^verbatim>\<open>JSON.parse\<close> builds plain objects and arrays only. A value in memory is a \<open>jsval\<close>, a
  value in the file a \<open>json\<close>; \<open>roomValue\<close> is the room record as the object the server
  holds. A room that has been loaded is a \<open>jsval\<close>: calling \<^verbatim>\<open>has\<close> on a part of it that is
  not a \<^verbatim>\<open>Set\<close> raises a type error.
\<close>

datatype json = JNull | JNum number | JStr string | JArr "json list" | JObj "(string \<times> json) list"

datatype jsval =
  VNull | VNum number | VStr string | VArr "jsval list" | VObj "(string \<times> jsval) list"
  | VSet "string set"

datatype js_error = TypeError

primrec stringify :: "jsval \<Rightarrow> json" where
  "stringify VNull = JNull"
| "stringify (VNum n) = JNum n"
| "stringify (VStr s) = JStr s"
| "stringify (VArr vs) = JArr (map stringify vs)"
| "stringify (VObj kvs) = JObj (map (map_prod id stringify) kvs)"
| "stringify (VSet S) = JObj []"

primrec parse :: "json \<Rightarrow> jsval" where
  "parse JNull = VNull"
| "parse (JNum n) = VNum n"
| "parse (JStr s) = VStr s"
| "parse (JArr js) = VArr (map parse js)"
| "parse (JObj kjs) = VObj (map (map_prod id parse) kjs)"

fun field :: "string \<Rightarrow> jsval \<Rightarrow> jsval option" where
  "field k (VObj kvs) = map_of kvs k"
| "field k v = None"

fun has :: "jsval \<Rightarrow> string \<Rightarrow> js_error + bool" where
  "has (VSet S) x = Inr (x \<in> S)"
| "has v x = Inl TypeError"

definition optional :: "string \<Rightarrow> ('a \<Rightarrow> jsval) \<Rightarrow> 'a option \<Rightarrow> (string \<times> jsval) list" where
  "optional k f x = (case x of None \<Rightarrow> [] | Some v \<Rightarrow> [(k, f v)])"

definition nullable :: "number option \<Rightarrow> jsval" where
  "nullable x = (case x of None \<Rightarrow> VNull | Some n \<Rightarrow> VNum n)"

definition instant :: "nat \<Rightarrow> jsval" where
  "instant t = VNum (of_nat t)"

definition purchasedValue :: "purchased \<Rightarrow> jsval" where
  "purchasedValue pp =
     VObj ([(''name'', VStr (name pp)), (''team'', VStr (team pp)), (''type'', VStr (ptype pp)),
            (''basePrice'', nullable (basePrice pp)), (''boughtPrice'', VNum (boughtPrice pp)),
            (''boughtAt'', instant (boughtAt pp))]
           @ optional ''awardedBy'' VStr (awardedBy pp))"

definition userValue :: "user \<Rightarrow> jsval" where
  "userValue u =
     VObj [(''username'', VStr (username u)), (''budget'', VNum (budget u)),
           (''players'', VArr (map purchasedValue (players u)))]"

definition bidValue :: "bid \<Rightarrow> jsval" where
  "bidValue b =
     VObj [(''bidderTeam'', VStr (bidderTeam b)), (''amount'', VNum (amount b)),
           (''timestamp'', instant (timestamp b))]"

definition statusValue :: "status \<Rightarrow> jsval" where
  "statusValue s = VStr (case s of Active \<Rightarrow> ''active'' | Closed \<Rightarrow> ''closed'' | Sold \<Rightarrow> ''sold'')"

definition bidDataValue :: "bidData \<Rightarrow> jsval" where
  "bidDataValue bd =
     VObj ([(''playerName'', VStr (playerName bd)), (''playerType'', VStr (playerType bd))]
           @ (case biddingType bd of
                Regular \<Rightarrow> [(''basePrice'', nullable (sessionBasePrice bd))]
              | Blind \<Rightarrow> [])
           @ [(''bids'', VArr (map bidValue (bids bd))),
              (''biddingStartTime'', instant (biddingStartTime bd)),
              (''status'', statusValue (status bd)),
              (''biddingType'', VStr (typeParam (biddingType bd)))]
           @ optional ''lastBidTime'' instant (lastBidTime bd)
           @ optional ''closedAt'' instant (closedAt bd)
           @ optional ''soldTo'' VStr (soldTo bd)
           @ optional ''finalPrice'' VNum (finalPrice bd)
           @ optional ''soldAt'' instant (soldAt bd))"

definition batchStateValue :: "batchState \<Rightarrow> jsval" where
  "batchStateValue bs =
     VObj [(''currentCycleIndex'', VNum (of_nat (currentCycleIndex bs))),
           (''sentPlayers'', VSet (sentPlayers bs)),
           (''typePointers'',
              VObj (map (\<lambda>T. (type_name T, VNum (of_nat (typePointers bs T)))) CYCLE_ORDER))]"

definition roomValue :: "room \<Rightarrow> jsval" where
  "roomValue r =
     VObj [(''roomId'', VStr (roomId r)),
           (''users'', VObj (map (map_prod id userValue) (users r))),
           (''budgetPerUser'', VNum (budgetPerUser r)),
           (''createdAt'', instant (createdAt r)),
           (''lastActivity'', instant (lastActivity r)),
           (''soldPlayers'', VSet (soldPlayers r)),
           (''currentBids'', VObj (map (map_prod id bidDataValue) (currentBids r))),
           (''blindBids'', VObj (map (map_prod id bidDataValue) (blindBids r))),
           (''batchState'', batchStateValue (batchState r))]"

definition saveRoomsToDB :: "(string \<times> room) list \<Rightarrow> json" where
  "saveRoomsToDB rooms = stringify (VObj [(''rooms'', VObj (map (map_prod id roomValue) rooms))])"

definition loadRoomsFromDB :: "json \<Rightarrow> (string \<times> jsval) list" where
  "loadRoomsFromDB file =
     (case field ''rooms'' (parse file) of Some (VObj rooms) \<Rightarrow> rooms | _ \<Rightarrow> [])"

definition reloaded :: "room \<Rightarrow> jsval option" where
  "reloaded r = map_of (loadRoomsFromDB (saveRoomsToDB [(roomId r, r)])) (roomId r)"

definition soldPlayersOf :: "jsval \<Rightarrow> jsval option" where
  "soldPlayersOf v = field ''soldPlayers'' v"

definition sentPlayersOf :: "jsval \<Rightarrow> jsval option" where
  "sentPlayersOf v = (case field ''batchState'' v of None \<Rightarrow> None
                      | Some b \<Rightarrow> field ''sentPlayers'' b)"

definition soldHas :: "jsval \<Rightarrow> string \<Rightarrow> js_error + bool" where
  "soldHas v x = (case soldPlayersOf v of None \<Rightarrow> Inl TypeError | Some s \<Rightarrow> has s x)"

definition sentHas :: "jsval \<Rightarrow> string \<Rightarrow> js_error + bool" where
  "sentHas v x = (case sentPlayersOf v of None \<Rightarrow> Inl TypeError | Some s \<Rightarrow> has s x)"


subsection \<open>Requesting batches until the auction is complete\<close>

text \<open>
  The client's loop: request the next batch until the server answers that the auction is
  complete, at most \<open>n\<close> times, keeping each batch with the type it was served for. The
  result is \<open>None\<close> when \<open>n\<close> requests do not reach that answer.
\<close>

fun requestUntilComplete ::
  "player list \<Rightarrow> nat \<Rightarrow> nat \<Rightarrow> room \<Rightarrow> (cycle_type \<times> player list) list option" where
  "requestUntilComplete cat now 0 r = None"
| "requestUntilComplete cat now (Suc n) r =
     (case next_batch cat now r of
        (AuctionComplete, r') \<Rightarrow> Some []
      | (Batch ps T nT sz tot, r') \<Rightarrow>
          map_option ((#) (T, ps)) (requestUntilComplete cat now n r'))"

text \<open>
  The priced catalog in the order of the cycle, what is left of a type's list behind its
  pointer, and the condition under which the loop of the handler never meets a name it has
  sent: pointers within their lists and no unserved name in the sent set.
\<close>

definition pricedCatalog :: "player list \<Rightarrow> player list" where
  "pricedCatalog cat = concat (map (mainAuctionPlayers cat) CYCLE_ORDER)"

definition remaining :: "player list \<Rightarrow> batchState \<Rightarrow> cycle_type \<Rightarrow> player list" where
  "remaining cat bs T = drop (typePointers bs T) (mainAuctionPlayers cat T)"

definition dispatchOk :: "player list \<Rightarrow> batchState \<Rightarrow> bool" where
  "dispatchOk cat bs \<longleftrightarrow>
     currentCycleIndex bs < length CYCLE_ORDER
     \<and> (\<forall>T. typePointers bs T \<le> length (mainAuctionPlayers cat T))
     \<and> (\<forall>T. name ` set (remaining cat bs T) \<inter> sentPlayers bs = {})"

text \<open>
  Under that condition one request serves the next players of the current type, up to the
  batch size, and leaves the batch state \<open>advanced\<close>.
\<close>

definition servedBatch :: "player list \<Rightarrow> batchState \<Rightarrow> player list" where
  "servedBatch cat bs =
     take (BATCH_CONFIG (CYCLE_ORDER ! currentCycleIndex bs))
       (remaining cat bs (CYCLE_ORDER ! currentCycleIndex bs))"

definition advanced :: "player list \<Rightarrow> batchState \<Rightarrow> batchState" where
  "advanced cat bs =
     (let T = CYCLE_ORDER ! currentCycleIndex bs;
          b = servedBatch cat bs;
          p = typePointers bs T + length b
      in \<lparr>currentCycleIndex =
            (if b = [] \<or> length (mainAuctionPlayers cat T) \<le> p
             then (currentCycleIndex bs + 1) mod length CYCLE_ORDER else currentCycleIndex bs),
          sentPlayers = sentPlayers bs \<union> name ` set b,
          typePointers = (typePointers bs)(T := p)\<rparr>)"

text \<open>
  The types before the current one in the cycle are exhausted; the players still to serve
  from the current type on; and a bound on the number of requests still needed.
\<close>

definition phase :: "player list \<Rightarrow> batchState \<Rightarrow> bool" where
  "phase cat bs \<longleftrightarrow>
     dispatchOk cat bs
     \<and> (\<forall>j < currentCycleIndex bs.
          typePointers bs (CYCLE_ORDER ! j) = length (mainAuctionPlayers cat (CYCLE_ORDER ! j)))"

definition toServe :: "player list \<Rightarrow> batchState \<Rightarrow> player list" where
  "toServe cat bs = concat (map (remaining cat bs) (drop (currentCycleIndex bs) CYCLE_ORDER))"

definition callsLeft :: "player list \<Rightarrow> batchState \<Rightarrow> nat" where
  "callsLeft cat bs =
     sum_list (map (\<lambda>T. Suc (length (remaining cat bs T))) (drop (currentCycleIndex bs) CYCLE_ORDER))"

definition wellServed :: "player list \<Rightarrow> (cycle_type \<times> player list) list \<Rightarrow> bool" where
  "wellServed cat bss \<longleftrightarrow>
     (\<forall>(T, ps) \<in> set bss. set ps \<subseteq> set (mainAuctionPlayers cat T) \<and> length ps \<le> BATCH_CONFIG T)"

text \<open>
  A catalog with four priced players of three types, and a catalog in which two priced
  batsmen carry the same name, with the rooms they lead to.
\<close>

definition demoCatalog :: "player list" where
  "demoCatalog =
     [\<lparr>name = ''B1'', team = ''X'', ptype = ''BAT'', basePrice = Some 30\<rparr>,
      \<lparr>name = ''W1'', team = ''Y'', ptype = ''WK'', basePrice = Some 10\<rparr>,
      \<lparr>name = ''B2'', team = ''Y'', ptype = ''BAT'', basePrice = Some 50\<rparr>,
      \<lparr>name = ''Q'', team = ''Y'', ptype = ''BOWL'', basePrice = None\<rparr>,
      \<lparr>name = ''A1'', team = ''X'', ptype = ''AR'', basePrice = Some 20\<rparr>]"

definition dupCat :: "player list" where
  "dupCat =
     [\<lparr>name = ''X'', team = ''X'', ptype = ''BAT'', basePrice = Some 10\<rparr>,
      \<lparr>name = ''X'', team = ''Y'', ptype = ''BAT'', basePrice = Some 5\<rparr>]"

definition dupStuck :: room where
  "dupStuck = snd (next_batch dupCat 0 demoRoom)"

definition dispatching :: "nat \<Rightarrow> string set \<Rightarrow> (cycle_type \<Rightarrow> nat) \<Rightarrow> room" where
  "dispatching i sent ptrs =
     demoRoom\<lparr>batchState := \<lparr>currentCycleIndex = i, sentPlayers = sent, typePointers = ptrs\<rparr>,
              lastActivity := 0\<rparr>"

definition stuckAt :: "nat \<Rightarrow> room" where
  "stuckAt i = demoRoom
     \<lparr>batchState := \<lparr>currentCycleIndex = i, sentPlayers = {''X''},
                      typePointers = (\<lambda>T. 0)(BAT := 1)\<rparr>,
      lastActivity := 0\<rparr>"


section \<open>Properties\<close>

subsection \<open>Numbers\<close>

text \<open>
  The rounding is that of the machine on known cases: a tenth, and the whole numbers next
  to \<open>2\<^sup>5\<^sup>3\<close>, where a tie goes to the even significand. In general the result has
  a significand of at most 53 bits at the exponent of the argument, is at most half a unit
  in the last place away from it, and has its sign: a comparator that subtracts orders
  numbers as they are ordered.
\<close>

lemma toDouble_samples:
  "toDouble (1 / 10) = 3602879701896397 / 36028797018963968"
  "toDouble 9007199254740993 = 9007199254740992"
  "toDouble 9007199254740995 = 9007199254740996"
  "toDouble (- 9007199254740995) = - 9007199254740996"
  "toDouble (3 / 4) = 3 / 4"
  by code_simp+

lemma exponent_bounds:
  assumes "0 < x"
  shows "2 powi exponent x \<le> x" "x < 2 powi (exponent x + 1)"
proof -
  have "2 powi exponent x \<le> x \<and> x < 2 powi (exponent x + 1)"
  proof (cases "1 \<le> x")
    case True
    let ?n = "\<lfloor>x\<rfloor>"
    from True have n: "0 < ?n" by simp
    from bitlen_bounds [OF n] have b: "2 ^ nat (bitlen ?n - 1) \<le> ?n" "?n < 2 ^ nat (bitlen ?n)"
      by simp_all
    from n have p: "1 \<le> bitlen ?n" by (simp add: bitlen_alt_def)
    have e: "exponent x = bitlen ?n - 1" using True by (simp add: exponent_def)
    have "(2 :: rat) powi (bitlen ?n - 1) = of_int (2 ^ nat (bitlen ?n - 1))"
      using p by (simp add: power_int_def)
    also have "\<dots> \<le> of_int ?n" using b(1) by (simp only: of_int_le_iff)
    also have "\<dots> \<le> x" by simp
    finally have lo: "2 powi exponent x \<le> x" by (simp add: e)
    have "?n + 1 \<le> 2 ^ nat (bitlen ?n)" using b(2) by simp
    then have "of_int (?n + 1) \<le> (of_int (2 ^ nat (bitlen ?n)) :: rat)"
      by (simp only: of_int_le_iff)
    moreover have "x < of_int (?n + 1)" using floor_correct [of x] by simp
    moreover have "(2 :: rat) powi (bitlen ?n) = of_int (2 ^ nat (bitlen ?n))"
      using p by (simp add: power_int_def)
    ultimately have "x < 2 powi (exponent x + 1)" by (simp add: e)
    with lo show ?thesis ..
  next
    case False
    let ?m = "\<lceil>1 / x\<rceil>"
    let ?k = "bitlen (?m - 1)"
    from False assms have y: "1 < 1 / x" by simp
    then have m: "0 < ?m - 1" by simp
    from bitlen_bounds [OF m] have b: "2 ^ nat (?k - 1) \<le> ?m - 1" "?m - 1 < 2 ^ nat ?k"
      by simp_all
    from m have p: "1 \<le> ?k" by (simp add: bitlen_alt_def)
    have e: "exponent x = - ?k" using False by (simp add: exponent_def)
    have "1 / x \<le> of_int ?m" by simp
    also have "of_int ?m \<le> (of_int (2 ^ nat ?k) :: rat)"
      using b(2) by (simp only: of_int_le_iff)
    finally have "1 / x \<le> 2 ^ nat ?k" by simp
    then have "1 / 2 ^ nat ?k \<le> x" using assms by (simp add: field_simps)
    moreover have "(2 :: rat) powi (- ?k) = 1 / 2 ^ nat ?k"
      using p by (simp add: power_int_def field_simps)
    ultimately have lo: "2 powi exponent x \<le> x" by (simp add: e)
    have "of_int (2 ^ nat (?k - 1)) \<le> (of_int (?m - 1) :: rat)"
      using b(1) by (simp only: of_int_le_iff)
    moreover have "of_int (?m - 1) < 1 / x" using ceiling_correct [of "1 / x"] by simp
    ultimately have "2 ^ nat (?k - 1) < 1 / x" by simp
    then have "x < 1 / 2 ^ nat (?k - 1)" using assms by (simp add: field_simps)
    moreover have "(2 :: rat) powi (- ?k + 1) = 1 / 2 ^ nat (?k - 1)"
      using p by (simp add: power_int_def field_simps nat_diff_distrib)
    ultimately have "x < 2 powi (exponent x + 1)" by (simp add: e)
    with lo show ?thesis ..
  qed
  then show "2 powi exponent x \<le> x" "x < 2 powi (exponent x + 1)" by simp_all
qed

lemma roundEven_near: "\<bar>of_int (roundEven q) - q\<bar> \<le> 1 / 2"
  using floor_correct [of q] by (auto simp: roundEven_def Let_def)

lemma toDouble_nearest:
  assumes "x \<noteq> 0"
  shows "\<exists>m :: int. toDouble x = of_int m * 2 powi (exponent \<bar>x\<bar> - 52) \<and> \<bar>m\<bar> \<le> 2 ^ 53
           \<and> \<bar>toDouble x - x\<bar> \<le> 2 powi (exponent \<bar>x\<bar> - 52) / 2"
proof -
  define u :: rat where "u = 2 powi (exponent \<bar>x\<bar> - 52)"
  define m where "m = roundEven (x / u)"
  have u0: "0 < u" by (simp add: u_def)
  have t: "toDouble x = of_int m * u"
    using assms by (simp add: toDouble_def Let_def m_def u_def)
  from assms have "0 < \<bar>x\<bar>" by simp
  from exponent_bounds(2) [OF this] have "\<bar>x\<bar> < 2 powi (exponent \<bar>x\<bar> - 52 + 53)"
    by (simp add: algebra_simps)
  then have "\<bar>x\<bar> < u * 2 ^ 53"
    unfolding u_def by (subst (asm) power_int_add) simp_all
  then have q: "\<bar>x / u\<bar> < 2 ^ 53" using u0 by (simp add: field_simps abs_mult)
  note n = roundEven_near [of "x / u", folded m_def]
  from n q have "\<bar>of_int m :: rat\<bar> < 2 ^ 53 + 1" by linarith
  then have "of_int \<bar>m\<bar> < (of_int (2 ^ 53 + 1) :: rat)" by simp
  then have "\<bar>m\<bar> < 2 ^ 53 + 1" by (simp only: of_int_less_iff)
  then have b: "\<bar>m\<bar> \<le> 2 ^ 53" by simp
  have "\<bar>of_int m * u - x\<bar> = \<bar>of_int m - x / u\<bar> * u"
    using u0 by (simp add: field_simps abs_mult flip: abs_mult_pos)
  also have "\<dots> \<le> 1 / 2 * u" using n u0 by (intro mult_right_mono) simp_all
  finally have "\<bar>toDouble x - x\<bar> \<le> u / 2" by (simp add: t)
  with t b show ?thesis unfolding u_def by blast
qed

lemma toDouble_sign: "sgn (toDouble x) = sgn x"
proof (cases "x = 0")
  case True
  then show ?thesis by (simp add: toDouble_def)
next
  case False
  define u :: rat where "u = 2 powi (exponent \<bar>x\<bar> - 52)"
  define m where "m = roundEven (x / u)"
  have u0: "0 < u" by (simp add: u_def)
  have t: "toDouble x = of_int m * u"
    using False by (simp add: toDouble_def Let_def m_def u_def)
  from False have "0 < \<bar>x\<bar>" by simp
  from exponent_bounds(1) [OF this] have "2 powi (exponent \<bar>x\<bar> - 52 + 52) \<le> \<bar>x\<bar>"
    by (simp add: algebra_simps)
  then have "u * 2 ^ 52 \<le> \<bar>x\<bar>"
    unfolding u_def by (subst (asm) power_int_add) simp_all
  then have "2 ^ 52 \<le> \<bar>x / u\<bar>" using u0 by (simp add: field_simps abs_mult)
  then have q: "1 \<le> \<bar>x / u\<bar>" by simp
  note n = roundEven_near [of "x / u", folded m_def]
  show ?thesis
  proof (cases "0 < x")
    case True
    with u0 have "0 < x / u" by simp
    with n q have "0 < (of_int m :: rat)" by linarith
    with u0 have "0 < toDouble x" by (simp add: t)
    with True show ?thesis by simp
  next
    case nonpos: False
    with False have "x < 0" by simp
    with u0 have neg: "x / u < 0" by (simp add: divide_neg_pos)
    with n q have "(of_int m :: rat) < 0" by linarith
    with u0 have "toDouble x < 0" by (simp add: t mult_neg_pos)
    with \<open>x < 0\<close> show ?thesis by simp
  qed
qed

text \<open>
  A whole number of magnitude below \<open>2\<^sup>5\<^sup>3\<close> is a number of the machine, so on whole numbers
  the subtraction of the machine is exact as long as its result stays below that bound.
\<close>

lemma roundEven_int [simp]: "roundEven (of_int n) = n"
  by (simp add: roundEven_def)

lemma toDouble_whole:
  assumes "x \<in> \<int>" "\<bar>x\<bar> < 2 ^ 53"
  shows "toDouble x = x"
proof (cases "x = 0")
  case True
  then show ?thesis by (simp add: toDouble_def)
next
  case False
  from assms(1) obtain n :: int where n: "x = of_int n" by (auto elim: Ints_cases)
  with False have n0: "n \<noteq> 0" by auto
  then have a1: "1 \<le> \<bar>n\<bar>" by simp
  from assms(2) n have "of_int \<bar>n\<bar> < (2 :: rat) ^ 53" by simp
  then have "of_int \<bar>n\<bar> < (of_int (2 ^ 53) :: rat)" by simp
  then have lt: "\<bar>n\<bar> < 2 ^ 53" by (simp only: of_int_less_iff)
  then have "bitlen \<bar>n\<bar> \<le> 53" by (simp add: bitlen_le_iff_power)
  moreover have "\<lfloor>\<bar>x\<bar>\<rfloor> = \<bar>n\<bar>" by (simp add: n flip: of_int_abs)
  moreover have "1 \<le> \<bar>x\<bar>" using a1 by (simp add: n flip: of_int_abs)
  ultimately have "exponent \<bar>x\<bar> - 52 \<le> 0"
    by (simp add: exponent_def)
  then obtain k :: nat where k: "exponent \<bar>x\<bar> - 52 = - int k"
    by (metis nonpos_int_cases)
  have q: "x / (2 powi (- int k)) = of_int (n * 2 ^ k)"
    by (simp add: n power_int_minus field_simps)
  have "toDouble x = of_int (roundEven (x / 2 powi (- int k))) * 2 powi (- int k)"
    using False by (simp only: toDouble_def Let_def k if_False)
  also have "\<dots> = of_int (n * 2 ^ k) * 2 powi (- int k)"
    by (simp only: q roundEven_int)
  also have "\<dots> = x"
    by (simp add: n power_int_minus)
  finally show ?thesis .
qed

lemma jsMinus_whole:
  "a \<in> \<int> \<Longrightarrow> b \<in> \<int> \<Longrightarrow> \<bar>a - b\<bar> < 2 ^ 53 \<Longrightarrow> jsMinus a b = a - b"
  by (simp add: jsMinus_def toDouble_whole)

lemma jsMinus_numeral [simp]:
  "\<bar>numeral m - numeral n :: rat\<bar> < 2 ^ 53 \<Longrightarrow> jsMinus (numeral m) (numeral n) = numeral m - numeral n"
  by (rule jsMinus_whole) simp_all


subsection \<open>What an operation does to the teams\<close>

lemma usersChange_same: "users r' = users r \<Longrightarrow> budgetPerUser r' = budgetPerUser r \<Longrightarrow> usersChange r r'"
  by (simp add: usersChange_def)

lemma uc_autoAwardPlayer: "usersChange r (autoAwardPlayer cat now pn r)"
  unfolding usersChange_def autoAwardPlayer_def Let_def
  by (simp split: option.split) blast

lemma uc_autoAwardBlind: "usersChange r (autoAwardBlindBidPlayer cat now pn r)"
  unfolding usersChange_def autoAwardBlindBidPlayer_def Let_def
  by (simp split: option.split) blast

lemma uc_select_player: "usersChange r (snd (select_player cat now pn price tn r))"
  unfolding usersChange_def select_player_def
  by (simp split: option.split) blast

lemma uc_join_room: "usersChange r (join_room now tn r)"
  unfolding usersChange_def join_room_def
  by (simp split: option.split) blast

lemma uc_place_bid: "usersChange r (snd (place_bid cat now pn amt tn r))"
  unfolding place_bid_def
  by (intro usersChange_same) (simp_all split: option.split prod.split)

lemma uc_place_blind_bid: "usersChange r (snd (place_blind_bid cat now pn amt tn r))"
  unfolding place_blind_bid_def
  by (intro usersChange_same) (simp_all split: option.split prod.split)

lemma uc_start_bidding: "usersChange r (snd (start_bidding cat now pn r))"
  unfolding start_bidding_def
  by (intro usersChange_same) (simp_all split: option.split)

lemma uc_start_blind_bidding: "usersChange r (snd (start_blind_bidding cat now pn r))"
  unfolding start_blind_bidding_def
  by (intro usersChange_same) (simp_all split: option.split)

lemma uc_next_batch: "usersChange r (snd (next_batch cat now r))"
  unfolding next_batch_def Let_def
  by (intro usersChange_same) (simp_all split: prod.split)

lemma usersChange_trans_same:
  "usersChange r r1 \<Longrightarrow> users r2 = users r1 \<Longrightarrow> budgetPerUser r2 = budgetPerUser r1 \<Longrightarrow>
     usersChange r r2"
  by (simp add: usersChange_def)

lemma close_bidding_cases:
  "snd (close_bidding cat now pn bt r) = r
   \<or> snd (close_bidding cat now pn bt r) =
       (autoAwardPlayer cat now pn r)
         \<lparr>currentBids := resortSession pn (currentBids (autoAwardPlayer cat now pn r))\<rparr>
   \<or> snd (close_bidding cat now pn bt r) =
       (autoAwardBlindBidPlayer cat now pn r)
         \<lparr>blindBids := resortSession pn (blindBids (autoAwardBlindBidPlayer cat now pn r))\<rparr>"
  unfolding close_bidding_def Let_def by (simp split: option.split)

lemma uc_close_bidding: "usersChange r (snd (close_bidding cat now pn bt r))"
  using close_bidding_cases [of cat now pn bt r]
  by (elim disjE)
    (auto intro: usersChange_same
      usersChange_trans_same [OF uc_autoAwardPlayer] usersChange_trans_same [OF uc_autoAwardBlind])

lemma timer_regular_eq: "timer_regular cat now pn r = autoAwardPlayer cat now pn r"
  by (simp add: timer_regular_def autoAwardPlayer_def split: option.split)

lemma timer_blind_eq: "timer_blind cat now pn r = autoAwardBlindBidPlayer cat now pn r"
  by (simp add: timer_blind_def autoAwardBlindBidPlayer_def split: option.split)

lemma uc_timer_regular: "usersChange r (timer_regular cat now pn r)"
  by (simp add: timer_regular_eq uc_autoAwardPlayer)

lemma uc_timer_blind: "usersChange r (timer_blind cat now pn r)"
  by (simp add: timer_blind_eq uc_autoAwardBlind)

lemma uc_queries:
  "usersChange r (player_bids now pn r)"
  "usersChange r (snd (blind_bids now pn r))"
  "usersChange r (snd (room_bids now r))"
  "usersChange r (bidding_history now r)"
  "usersChange r (updateRoomActivity now r)"
  by (simp_all add: usersChange_def player_bids_def blind_bids_def room_bids_def
      bidding_history_def updateRoomActivity_def Let_def split: option.split)

lemma usersChange_step: "usersChange r (step cat now opn r)"
  by (cases opn)
    (simp_all add: uc_autoAwardPlayer uc_autoAwardBlind uc_select_player uc_join_room
      uc_place_bid uc_place_blind_bid uc_start_bidding uc_start_blind_bidding uc_next_batch
      uc_close_bidding uc_timer_regular uc_timer_blind uc_queries)


subsection \<open>Sessions and resolution\<close>

lemma set_sortBids [simp]: "set (sortBids bs) = set bs"
  by (simp add: sortBids_def)

lemma sortBids_Nil [simp]: "sortBids bs = [] \<longleftrightarrow> bs = []"
  by (metis set_sortBids set_empty)

lemma sortBids_idem [simp]: "sortBids (sortBids bs) = sortBids bs"
  unfolding sortBids_def by (simp add: sort_key_id_if_sorted)

lemma map_of_sortActive:
  "map_of (sortActive tbl) pn =
     map_option (\<lambda>bd. if status bd = Active then bd\<lparr>bids := sortBids (bids bd)\<rparr> else bd)
       (map_of tbl pn)"
  by (induction tbl) (auto simp: sortActive_def)

lemma map_of_sortTerminal:
  "map_of (sortTerminal tbl) pn =
     map_option
       (\<lambda>bd. if status bd = Sold \<or> status bd = Closed then bd\<lparr>bids := sortBids (bids bd)\<rparr> else bd)
       (map_of tbl pn)"
  by (induction tbl) (auto simp: sortTerminal_def)

lemma map_of_resortSession:
  "map_of (resortSession k tbl) pn =
     (if pn = k then map_option (\<lambda>bd. bd\<lparr>bids := sortBids (bids bd)\<rparr>) (map_of tbl pn)
      else map_of tbl pn)"
  by (auto simp: resortSession_def update_conv' split: option.splits)

lemma tableOk_users:
  "tableOk ps us tbl \<Longrightarrow> (\<And>k. map_of us k \<noteq> None \<Longrightarrow> map_of us' k \<noteq> None) \<Longrightarrow>
     tableOk ps us' tbl"
  unfolding tableOk_def by blast

lemma tableOk_update:
  "tableOk ps us tbl \<Longrightarrow> pn \<noteq> [] \<Longrightarrow> findPlayer ps pn \<noteq> None \<Longrightarrow>
     (\<And>b. b \<in> set (bids bd) \<Longrightarrow> map_of us (bidderTeam b) \<noteq> None) \<Longrightarrow>
     tableOk ps us (AList.update pn bd tbl)"
  unfolding tableOk_def by (auto simp: update_conv')

lemma tableOk_lookup:
  "tableOk ps us tbl \<Longrightarrow> map_of tbl pn = Some bd \<Longrightarrow>
     pn \<noteq> [] \<and> findPlayer ps pn \<noteq> None \<and> (\<forall>b \<in> set (bids bd). map_of us (bidderTeam b) \<noteq> None)"
  unfolding tableOk_def by blast

lemma tableOk_sortActive: "tableOk ps us tbl \<Longrightarrow> tableOk ps us (sortActive tbl)"
  unfolding tableOk_def by (auto simp: map_of_sortActive split: if_splits)

lemma tableOk_sortTerminal: "tableOk ps us tbl \<Longrightarrow> tableOk ps us (sortTerminal tbl)"
  unfolding tableOk_def by (auto simp: map_of_sortTerminal split: if_splits)

lemma tableOk_resortSession: "tableOk ps us tbl \<Longrightarrow> tableOk ps us (resortSession k tbl)"
  unfolding tableOk_def by (auto simp: map_of_resortSession split: if_splits)

lemma usersChange_dom:
  "usersChange r r' \<Longrightarrow> map_of (users r) k \<noteq> None \<Longrightarrow> map_of (users r') k \<noteq> None"
  unfolding usersChange_def by (auto simp: update_conv')

lemma tableOk_usersChange:
  "tableOk ps (users r) tbl \<Longrightarrow> usersChange r r' \<Longrightarrow> tableOk ps (users r') tbl"
  by (erule tableOk_users) (erule (1) usersChange_dom)

text \<open>The award functions on an active session, flattened.\<close>

lemma autoAwardPlayer_inactive:
  "map_of (currentBids r) pn = None \<or> (\<exists>bd. map_of (currentBids r) pn = Some bd \<and> status bd \<noteq> Active)
     \<Longrightarrow> autoAwardPlayer cat now pn r = r"
  by (auto simp: autoAwardPlayer_def)

lemma autoAwardBlind_inactive:
  "map_of (blindBids r) pn = None \<or> (\<exists>bd. map_of (blindBids r) pn = Some bd \<and> status bd \<noteq> Active)
     \<Longrightarrow> autoAwardBlindBidPlayer cat now pn r = r"
  by (auto simp: autoAwardBlindBidPlayer_def)

lemma autoAwardPlayer_tables:
  "blindBids (autoAwardPlayer cat now pn r) = blindBids r"
  "batchState (autoAwardPlayer cat now pn r) = batchState r"
  by (simp_all add: autoAwardPlayer_def Let_def split: option.split)

lemma autoAwardBlind_tables:
  "currentBids (autoAwardBlindBidPlayer cat now pn r) = currentBids r"
  "batchState (autoAwardBlindBidPlayer cat now pn r) = batchState r"
  by (simp_all add: autoAwardBlindBidPlayer_def Let_def split: option.split)

lemma autoAwardPlayer_active:
  assumes "map_of (currentBids r) pn = Some bd" "status bd = Active"
  shows "autoAwardPlayer cat now pn r =
     (case awardee cat r pn bd of
        None \<Rightarrow> r\<lparr>currentBids := AList.update pn (closedSession bd now) (currentBids r)\<rparr>
      | Some (w, t, pl) \<Rightarrow>
          r\<lparr>users := AList.update (bidderTeam w)
                 (buy t (purchase pn pl (basePrice pl) (amount w) now (Some ''auto_highest_bid'')))
                 (users r),
            soldPlayers := insert pn (soldPlayers r),
            currentBids :=
              AList.update pn (soldSession (closedSession bd now) w now) (currentBids r)\<rparr>)"
  using assms
  by (auto simp: autoAwardPlayer_def awardee_def closedSession_def Let_def split: option.split)

lemma autoAwardBlind_active:
  assumes "map_of (blindBids r) pn = Some bd" "status bd = Active"
  shows "autoAwardBlindBidPlayer cat now pn r =
     (case awardee (blindBidPlayers cat) r pn bd of
        None \<Rightarrow> r\<lparr>blindBids := AList.update pn (closedSession bd now) (blindBids r)\<rparr>
      | Some (w, t, pl) \<Rightarrow>
          r\<lparr>users := AList.update (bidderTeam w)
                 (buy t (purchase pn pl None (amount w) now (Some ''auto_blind_bid'')))
                 (users r),
            soldPlayers := insert pn (soldPlayers r),
            blindBids :=
              AList.update pn (soldSession (closedSession bd now) w now) (blindBids r)\<rparr>)"
  using assms
  by (auto simp: autoAwardBlindBidPlayer_def awardee_def closedSession_def Let_def
      split: option.split)

lemma resolvedSession_simps [simp]:
  "bids (resolvedSession ps r pn bd now) = sortBids (bids bd)"
  "status (resolvedSession ps r pn bd now) \<noteq> Active"
  "playerName (resolvedSession ps r pn bd now) = playerName bd"
  by (simp_all add: resolvedSession_def closedSession_def soldSession_def split: option.split)

lemma autoAwardPlayer_session:
  assumes "map_of (currentBids r) pn = Some bd" "status bd = Active"
  shows "currentBids (autoAwardPlayer cat now pn r) =
           AList.update pn (resolvedSession cat r pn bd now) (currentBids r)"
  by (simp add: autoAwardPlayer_active [OF assms] resolvedSession_def split: option.split)

lemma autoAwardBlind_session:
  assumes "map_of (blindBids r) pn = Some bd" "status bd = Active"
  shows "blindBids (autoAwardBlindBidPlayer cat now pn r) =
           AList.update pn (resolvedSession (blindBidPlayers cat) r pn bd now) (blindBids r)"
  by (simp add: autoAwardBlind_active [OF assms] resolvedSession_def split: option.split)

lemma ok_autoAwardPlayer: "sessionsOk cat r \<Longrightarrow> sessionsOk cat (autoAwardPlayer cat now pn r)"
proof -
  assume ok: "sessionsOk cat r"
  let ?r' = "autoAwardPlayer cat now pn r"
  have uc: "usersChange r ?r'" by (rule uc_autoAwardPlayer)
  from ok have b: "tableOk (blindBidPlayers cat) (users ?r') (blindBids ?r')"
    by (simp add: sessionsOk_def autoAwardPlayer_tables tableOk_usersChange [OF _ uc])
  from ok have c0: "tableOk cat (users ?r') (currentBids r)"
    by (simp add: sessionsOk_def tableOk_usersChange [OF _ uc])
  have "tableOk cat (users ?r') (currentBids ?r')"
  proof (cases "\<exists>bd. map_of (currentBids r) pn = Some bd \<and> status bd = Active")
    case True
    then obtain bd where bd: "map_of (currentBids r) pn = Some bd" "status bd = Active" by blast
    from tableOk_lookup [OF c0 bd(1)] show ?thesis
      unfolding autoAwardPlayer_session [OF bd] by (intro tableOk_update [OF c0]) auto
  next
    case False
    then have "?r' = r" by (intro autoAwardPlayer_inactive) (cases "map_of (currentBids r) pn"; auto)
    with c0 show ?thesis by simp
  qed
  with b show ?thesis by (simp add: sessionsOk_def)
qed

lemma ok_autoAwardBlind:
  "sessionsOk cat r \<Longrightarrow> sessionsOk cat (autoAwardBlindBidPlayer cat now pn r)"
proof -
  assume ok: "sessionsOk cat r"
  let ?r' = "autoAwardBlindBidPlayer cat now pn r"
  have uc: "usersChange r ?r'" by (rule uc_autoAwardBlind)
  from ok have b: "tableOk cat (users ?r') (currentBids ?r')"
    by (simp add: sessionsOk_def autoAwardBlind_tables tableOk_usersChange [OF _ uc])
  from ok have c0: "tableOk (blindBidPlayers cat) (users ?r') (blindBids r)"
    by (simp add: sessionsOk_def tableOk_usersChange [OF _ uc])
  have "tableOk (blindBidPlayers cat) (users ?r') (blindBids ?r')"
  proof (cases "\<exists>bd. map_of (blindBids r) pn = Some bd \<and> status bd = Active")
    case True
    then obtain bd where bd: "map_of (blindBids r) pn = Some bd" "status bd = Active" by blast
    from tableOk_lookup [OF c0 bd(1)] show ?thesis
      unfolding autoAwardBlind_session [OF bd] by (intro tableOk_update [OF c0]) auto
  next
    case False
    then have "?r' = r"
      by (intro autoAwardBlind_inactive) (cases "map_of (blindBids r) pn"; auto)
    with c0 show ?thesis by simp
  qed
  with b show ?thesis by (simp add: sessionsOk_def)
qed

lemma place_bid_frame:
  "users (snd (place_bid cat now pn amt tn r)) = users r"
  "soldPlayers (snd (place_bid cat now pn amt tn r)) = soldPlayers r"
  "blindBids (snd (place_bid cat now pn amt tn r)) = blindBids r"
  "batchState (snd (place_bid cat now pn amt tn r)) = batchState r"
  "budgetPerUser (snd (place_bid cat now pn amt tn r)) = budgetPerUser r"
  unfolding place_bid_def by (simp_all split: option.split prod.split)

lemma place_blind_bid_frame:
  "users (snd (place_blind_bid cat now pn amt tn r)) = users r"
  "soldPlayers (snd (place_blind_bid cat now pn amt tn r)) = soldPlayers r"
  "currentBids (snd (place_blind_bid cat now pn amt tn r)) = currentBids r"
  "batchState (snd (place_blind_bid cat now pn amt tn r)) = batchState r"
  "budgetPerUser (snd (place_blind_bid cat now pn amt tn r)) = budgetPerUser r"
  unfolding place_blind_bid_def by (simp_all split: option.split prod.split)

lemma place_bid_currentBids:
  "currentBids (snd (place_bid cat now pn amt tn r)) = currentBids r
   \<or> (pn \<noteq> [] \<and> findPlayer cat pn \<noteq> None \<and> map_of (users r) tn \<noteq> None
      \<and> (\<exists>bd'. currentBids (snd (place_bid cat now pn amt tn r)) = AList.update pn bd' (currentBids r)
           \<and> set (bids bd') \<subseteq> insert \<lparr>bidderTeam = tn, amount = amt, timestamp = now\<rparr>
                 (case map_of (currentBids r) pn of None \<Rightarrow> {} | Some bd \<Rightarrow> set (bids bd))))"
  unfolding place_bid_def
  by (auto simp: newSession_def split: option.split prod.split)

lemma place_blind_bid_blindBids:
  "blindBids (snd (place_blind_bid cat now pn amt tn r)) = blindBids r
   \<or> (pn \<noteq> [] \<and> findPlayer (blindBidPlayers cat) pn \<noteq> None \<and> map_of (users r) tn \<noteq> None
      \<and> (\<exists>bd'. blindBids (snd (place_blind_bid cat now pn amt tn r)) = AList.update pn bd' (blindBids r)
           \<and> set (bids bd') \<subseteq> insert \<lparr>bidderTeam = tn, amount = amt, timestamp = now\<rparr>
                 (case map_of (blindBids r) pn of None \<Rightarrow> {} | Some bd \<Rightarrow> set (bids bd))))"
  unfolding place_blind_bid_def
  by (auto simp: newSession_def split: option.split prod.split)

lemma ok_place_bid: "sessionsOk cat r \<Longrightarrow> sessionsOk cat (snd (place_bid cat now pn amt tn r))"
proof -
  assume ok: "sessionsOk cat r"
  let ?r' = "snd (place_bid cat now pn amt tn r)"
  from ok have c: "tableOk cat (users r) (currentBids r)" by (simp add: sessionsOk_def)
  have "tableOk cat (users r) (currentBids ?r')"
    using place_bid_currentBids [of cat now pn amt tn r]
  proof (elim disjE conjE exE)
    fix bd'
    assume a: "pn \<noteq> []" "findPlayer cat pn \<noteq> None" "map_of (users r) tn \<noteq> None"
      "currentBids ?r' = AList.update pn bd' (currentBids r)"
      "set (bids bd') \<subseteq> insert \<lparr>bidderTeam = tn, amount = amt, timestamp = now\<rparr>
         (case map_of (currentBids r) pn of None \<Rightarrow> {} | Some bd \<Rightarrow> set (bids bd))"
    have "\<And>b. b \<in> set (bids bd') \<Longrightarrow> map_of (users r) (bidderTeam b) \<noteq> None"
      using a(3,5) tableOk_lookup [OF c, of pn]
      by (cases "map_of (currentBids r) pn") auto
    then show ?thesis unfolding a(4) by (intro tableOk_update [OF c] a)
  qed (simp add: c)
  with ok show ?thesis by (simp add: sessionsOk_def place_bid_frame)
qed

lemma ok_place_blind_bid:
  "sessionsOk cat r \<Longrightarrow> sessionsOk cat (snd (place_blind_bid cat now pn amt tn r))"
proof -
  assume ok: "sessionsOk cat r"
  let ?r' = "snd (place_blind_bid cat now pn amt tn r)"
  from ok have c: "tableOk (blindBidPlayers cat) (users r) (blindBids r)"
    by (simp add: sessionsOk_def)
  have "tableOk (blindBidPlayers cat) (users r) (blindBids ?r')"
    using place_blind_bid_blindBids [of cat now pn amt tn r]
  proof (elim disjE conjE exE)
    fix bd'
    assume a: "pn \<noteq> []" "findPlayer (blindBidPlayers cat) pn \<noteq> None"
      "map_of (users r) tn \<noteq> None"
      "blindBids ?r' = AList.update pn bd' (blindBids r)"
      "set (bids bd') \<subseteq> insert \<lparr>bidderTeam = tn, amount = amt, timestamp = now\<rparr>
         (case map_of (blindBids r) pn of None \<Rightarrow> {} | Some bd \<Rightarrow> set (bids bd))"
    have "\<And>b. b \<in> set (bids bd') \<Longrightarrow> map_of (users r) (bidderTeam b) \<noteq> None"
      using a(3,5) tableOk_lookup [OF c, of pn]
      by (cases "map_of (blindBids r) pn") auto
    then show ?thesis unfolding a(4) by (intro tableOk_update [OF c] a)
  qed (simp add: c)
  with ok show ?thesis by (simp add: sessionsOk_def place_blind_bid_frame)
qed

lemma find_Some_name: "find (\<lambda>p. name p = pn \<and> Q p) ps = Some pl \<Longrightarrow> findPlayer ps pn \<noteq> None"
  by (induction ps) (auto simp: findPlayer_def split: if_splits)

lemma ok_start_bidding: "sessionsOk cat r \<Longrightarrow> sessionsOk cat (snd (start_bidding cat now pn r))"
  unfolding start_bidding_def sessionsOk_def
  by (auto simp: newSession_def split: option.split intro!: tableOk_update dest: find_Some_name)

lemma ok_start_blind_bidding:
  "sessionsOk cat r \<Longrightarrow> sessionsOk cat (snd (start_blind_bidding cat now pn r))"
  unfolding start_blind_bidding_def sessionsOk_def
  by (auto simp: newSession_def split: option.split intro!: tableOk_update)

lemma ok_close_bidding:
  "sessionsOk cat r \<Longrightarrow> sessionsOk cat (snd (close_bidding cat now pn bt r))"
  using close_bidding_cases [of cat now pn bt r]
    ok_autoAwardPlayer [of cat r now pn] ok_autoAwardBlind [of cat r now pn]
  by (elim disjE) (auto simp: sessionsOk_def intro: tableOk_resortSession)

lemma ok_select_player:
  "sessionsOk cat r \<Longrightarrow> sessionsOk cat (snd (select_player cat now pn price tn r))"
proof -
  assume ok: "sessionsOk cat r"
  have t: "currentBids (snd (select_player cat now pn price tn r)) = currentBids r"
    "blindBids (snd (select_player cat now pn price tn r)) = blindBids r"
    unfolding select_player_def by (simp_all split: option.split)
  from ok show ?thesis
    by (simp add: sessionsOk_def t tableOk_usersChange [OF _ uc_select_player])
qed

lemma ok_join_room: "sessionsOk cat r \<Longrightarrow> sessionsOk cat (join_room now tn r)"
proof -
  assume ok: "sessionsOk cat r"
  have t: "currentBids (join_room now tn r) = currentBids r"
    "blindBids (join_room now tn r) = blindBids r"
    unfolding join_room_def by (simp_all split: option.split)
  from ok show ?thesis
    by (simp add: sessionsOk_def t tableOk_usersChange [OF _ uc_join_room])
qed

lemma ok_next_batch: "sessionsOk cat r \<Longrightarrow> sessionsOk cat (snd (next_batch cat now r))"
proof -
  assume ok: "sessionsOk cat r"
  have t: "currentBids (snd (next_batch cat now r)) = currentBids r"
    "blindBids (snd (next_batch cat now r)) = blindBids r"
    "users (snd (next_batch cat now r)) = users r"
    unfolding next_batch_def Let_def by (simp_all split: prod.split)
  from ok show ?thesis by (simp add: sessionsOk_def t)
qed

lemma ok_queries:
  assumes "sessionsOk cat r"
  shows "sessionsOk cat (player_bids now pn r)"
    "sessionsOk cat (snd (blind_bids now pn r))"
    "sessionsOk cat (snd (room_bids now r))"
    "sessionsOk cat (bidding_history now r)"
    "sessionsOk cat (updateRoomActivity now r)"
proof -
  from assms have c: "tableOk cat (users r) (currentBids r)"
    and b: "tableOk (blindBidPlayers cat) (users r) (blindBids r)"
    by (simp_all add: sessionsOk_def)
  show "sessionsOk cat (player_bids now pn r)"
    using c b tableOk_lookup [OF c, of pn]
    by (auto simp: player_bids_def sessionsOk_def split: option.split intro!: tableOk_update)
  show "sessionsOk cat (snd (blind_bids now pn r))"
    using c b tableOk_lookup [OF b, of pn]
    by (auto simp: blind_bids_def sessionsOk_def Let_def split: option.split
        intro!: tableOk_update)
  show "sessionsOk cat (snd (room_bids now r))"
    using c b by (simp add: room_bids_def sessionsOk_def Let_def tableOk_sortActive)
  show "sessionsOk cat (bidding_history now r)"
    using c b by (simp add: bidding_history_def sessionsOk_def tableOk_sortTerminal)
  show "sessionsOk cat (updateRoomActivity now r)"
    using c b by (simp add: updateRoomActivity_def sessionsOk_def)
qed

lemma ok_step: "sessionsOk cat r \<Longrightarrow> sessionsOk cat (step cat now opn r)"
  by (cases opn)
    (simp_all add: ok_autoAwardPlayer ok_autoAwardBlind ok_select_player ok_join_room
      ok_place_bid ok_place_blind_bid ok_start_bidding ok_start_blind_bidding ok_next_batch
      ok_close_bidding timer_regular_eq timer_blind_eq ok_queries)

lemma ok_create: "create_room rid us bpu now = Inr r \<Longrightarrow> sessionsOk cat r"
  by (auto simp: create_room_def sessionsOk_def tableOk_def Let_def split: if_splits)

lemma sessionsOk_reachable: "reachable cat r \<Longrightarrow> sessionsOk cat r"
  by (induction rule: reachable.induct) (auto intro: ok_create ok_step)

lemma sort_key_hd:
  assumes "sort_key f xs = y # ys"
  shows "y \<in> set xs \<and> (\<forall>x \<in> set xs. f y \<le> f x)
         \<and> (\<exists>us vs. xs = us @ y # vs \<and> (\<forall>u \<in> set us. f u \<noteq> f y))"
proof -
  have s: "set xs = set (y # ys)" using assms by (metis set_sort)
  have "sorted (map f (y # ys))" using assms by (metis sorted_sort_key)
  then have m: "\<forall>x \<in> set xs. f y \<le> f x" using s by auto
  have "filter (\<lambda>x. f x = f y) xs = filter (\<lambda>x. f x = f y) (y # ys)"
    using assms sort_key_stable [of f "f y" xs] by simp
  then have "filter (\<lambda>x. f x = f y) xs = y # filter (\<lambda>x. f x = f y) ys" by simp
  then obtain us vs where "xs = us @ y # vs" "\<forall>u \<in> set us. f u \<noteq> f y"
    unfolding filter_eq_Cons_iff by blast
  with s m show ?thesis by auto
qed

lemma sortBids_empty [simp]: "sortBids [] = []"
  by (simp add: sortBids_def)

lemma winningBid_None: "winningBid bs = None \<longleftrightarrow> bs = []"
proof (cases "sortBids bs")
  case Nil
  then show ?thesis using sortBids_Nil [of bs] by (simp add: winningBid_def)
next
  case (Cons w ws)
  then show ?thesis using sortBids_Nil [of bs] by (simp add: winningBid_def)
qed

lemma winningBid_first:
  assumes "winningBid bs = Some w"
  shows "\<exists>pre post. bs = pre @ w # post \<and> (\<forall>b \<in> set pre. amount b < amount w)
          \<and> (\<forall>b \<in> set post. amount b \<le> amount w)"
proof -
  from assms obtain ws where "sort_key (\<lambda>b. - amount b) bs = w # ws"
    by (auto simp: winningBid_def sortBids_def split: list.splits)
  from sort_key_hd [OF this] obtain us vs where
    m: "\<forall>x \<in> set bs. amount x \<le> amount w" and
    d: "bs = us @ w # vs" "\<forall>u \<in> set us. amount u \<noteq> amount w"
    by auto
  from m d have "\<forall>b \<in> set us. amount b < amount w" by (auto simp: less_le)
  moreover from m d have "\<forall>b \<in> set vs. amount b \<le> amount w" by simp
  ultimately show ?thesis using d(1) by blast
qed

lemma winningBid_max:
  assumes "winningBid bs = Some w"
  shows "w \<in> set bs \<and> (\<forall>b \<in> set bs. amount b \<le> amount w)"
  using winningBid_first [OF assms] by (force simp: less_le)

lemma update_same: "map_of tbl k = Some v \<Longrightarrow> AList.update k v tbl = tbl"
  by (induction tbl) (auto split: if_splits)

lemma resortSession_sorted:
  "map_of tbl k = Some bd \<Longrightarrow> sortBids (bids bd) = bids bd \<Longrightarrow> resortSession k tbl = tbl"
  by (simp add: resortSession_def update_same)

lemma close_regular_active:
  assumes "map_of (currentBids r) pn = Some bd" "status bd = Active" "pn \<noteq> []"
  shows "close_bidding cat now pn ''regular'' r = (Inr (), autoAwardPlayer cat now pn r)"
proof -
  let ?r1 = "autoAwardPlayer cat now pn r"
  have "map_of (currentBids ?r1) pn = Some (resolvedSession cat r pn bd now)"
    by (simp add: autoAwardPlayer_session [OF assms(1,2)] update_conv')
  then have "resortSession pn (currentBids ?r1) = currentBids ?r1"
    by (rule resortSession_sorted) simp
  then show ?thesis using assms by (simp add: close_bidding_def)
qed

lemma close_blind_active:
  assumes "map_of (blindBids r) pn = Some bd" "status bd = Active" "pn \<noteq> []"
  shows "close_bidding cat now pn ''blind'' r = (Inr (), autoAwardBlindBidPlayer cat now pn r)"
proof -
  let ?r1 = "autoAwardBlindBidPlayer cat now pn r"
  have "map_of (blindBids ?r1) pn = Some (resolvedSession (blindBidPlayers cat) r pn bd now)"
    by (simp add: autoAwardBlind_session [OF assms(1,2)] update_conv')
  then have "resortSession pn (blindBids ?r1) = blindBids ?r1"
    by (rule resortSession_sorted) simp
  then show ?thesis using assms by (simp add: close_bidding_def)
qed

lemma resolve_active:
  assumes "sessionOf k r pn = Some bd" "status bd = Active"
  shows "outcome k (resolve cat now k pn r) pn =
     (case awardee (pool k cat) r pn bd of
        None \<Rightarrow> (users r, soldPlayers r, Some (closedSession bd now))
      | Some (w, t, pl) \<Rightarrow>
          (AList.update (bidderTeam w) (buy t (awardRecord k pn pl w now)) (users r),
           insert pn (soldPlayers r),
           Some (soldSession (closedSession bd now) w now)))"
proof (cases k)
  case Regular
  with assms have s: "map_of (currentBids r) pn = Some bd" by (simp add: sessionOf_def)
  show ?thesis
    by (simp add: Regular resolve_def pool_def outcome_def sessionOf_def awardRecord_def
        autoAwardPlayer_active [OF s assms(2)] update_conv' split: option.split)
next
  case Blind
  with assms have s: "map_of (blindBids r) pn = Some bd" by (simp add: sessionOf_def)
  show ?thesis
    by (simp add: Blind resolve_def pool_def outcome_def sessionOf_def awardRecord_def
        autoAwardBlind_active [OF s assms(2)] update_conv' split: option.split)
qed

lemma session_known:
  assumes "reachable cat r" "sessionOf k r pn = Some bd"
  shows "pn \<noteq> [] \<and> (\<exists>pl. findPlayer (pool k cat) pn = Some pl)
         \<and> (\<forall>b \<in> set (bids bd). \<exists>t. map_of (users r) (bidderTeam b) = Some t)"
proof (cases k)
  case Regular
  with assms(2) sessionsOk_reachable [OF assms(1)]
  have "tableOk cat (users r) (currentBids r)" "map_of (currentBids r) pn = Some bd"
    by (simp_all add: sessionsOk_def sessionOf_def)
  from tableOk_lookup [OF this] show ?thesis by (auto simp: Regular pool_def)
next
  case Blind
  with assms(2) sessionsOk_reachable [OF assms(1)]
  have "tableOk (blindBidPlayers cat) (users r) (blindBids r)" "map_of (blindBids r) pn = Some bd"
    by (simp_all add: sessionsOk_def sessionOf_def)
  from tableOk_lookup [OF this] show ?thesis by (auto simp: Blind pool_def)
qed

lemma resolve_paths:
  assumes "sessionOf k r pn = Some bd" "status bd = Active" "pn \<noteq> []"
  shows "timerFires cat now k pn r = resolve cat now k pn r"
    "close_bidding cat now pn (typeParam k) r = (Inr (), resolve cat now k pn r)"
  using assms close_regular_active [of r pn bd cat now] close_blind_active [of r pn bd cat now]
  by (cases k; simp add: timerFires_def resolve_def typeParam_def sessionOf_def
      timer_regular_eq timer_blind_eq)+

subsection \<open>Admission of a regular bid\<close>

lemma place_bid_None:
  assumes "map_of (currentBids r) pn = None"
  shows "place_bid cat now pn amt tn r =
     (if pn = [] \<or> tn = [] then (Inl InvalidRequest, r)
      else case map_of (users r) tn of
        None \<Rightarrow> (Inl TeamNotFound, r)
      | Some t \<Rightarrow>
          if amt > budget t then (Inl BudgetExceeded, r)
          else if length (players t) \<ge> MAX_PLAYERS_PER_TEAM then (Inl RosterFull, r)
          else case findPlayer cat pn of
            None \<Rightarrow> (Inl PlayerNotFound, r)
          | Some pl \<Rightarrow>
              if pn \<in> soldPlayers r then (Inl PlayerAlreadySold, r)
              else if (case basePrice pl of None \<Rightarrow> False | Some b \<Rightarrow> b \<noteq> 0 \<and> amt < b)
                then (Inl BelowBasePrice,
                      r\<lparr>currentBids := AList.update pn
                           (newSession pn (ptype pl) (basePrice pl) now Regular) (currentBids r)\<rparr>)
              else if amt \<le> 0
                then (Inl BidTooLow,
                      r\<lparr>currentBids := AList.update pn
                           (newSession pn (ptype pl) (basePrice pl) now Regular) (currentBids r)\<rparr>)
              else (Inr (),
                    r\<lparr>currentBids :=
                         AList.update pn
                           ((newSession pn (ptype pl) (basePrice pl) now Regular)
                              \<lparr>bids := [\<lparr>bidderTeam = tn, amount = amt, timestamp = now\<rparr>],
                               lastBidTime := Some now\<rparr>)
                           (currentBids r),
                       lastActivity := now\<rparr>))"
  unfolding place_bid_def
  by (simp add: assms newSession_def currentHighestBid_def cong: option.case_cong if_cong)

lemma place_bid_Some:
  assumes "map_of (currentBids r) pn = Some bd"
  shows "place_bid cat now pn amt tn r =
     (if pn = [] \<or> tn = [] then (Inl InvalidRequest, r)
      else case map_of (users r) tn of
        None \<Rightarrow> (Inl TeamNotFound, r)
      | Some t \<Rightarrow>
          if amt > budget t then (Inl BudgetExceeded, r)
          else if length (players t) \<ge> MAX_PLAYERS_PER_TEAM then (Inl RosterFull, r)
          else case findPlayer cat pn of
            None \<Rightarrow> (Inl PlayerNotFound, r)
          | Some pl \<Rightarrow>
              if pn \<in> soldPlayers r then (Inl PlayerAlreadySold, r)
              else if status bd \<noteq> Active then (Inl SessionNotActive, r)
                   else if (case basePrice pl of None \<Rightarrow> False
                            | Some b \<Rightarrow> b \<noteq> 0 \<and> amt < b)
                     then (Inl BelowBasePrice, r)
                   else if amt \<le> currentHighestBid (bids bd) then (Inl BidTooLow, r)
                   else (Inr (),
                         r\<lparr>currentBids :=
                              AList.update pn
                                (bd\<lparr>bids := bids bd @
                                       [\<lparr>bidderTeam = tn, amount = amt, timestamp = now\<rparr>],
                                    lastBidTime := Some now\<rparr>)
                                (currentBids r),
                            lastActivity := now\<rparr>))"
  unfolding place_bid_def by (simp add: assms cong: option.case_cong if_cong)


subsection \<open>Blind bids keep their order of arrival\<close>

lemma place_blind_bid_None:
  assumes "map_of (blindBids r) pn = None"
  shows "place_blind_bid cat now pn amt tn r =
     (if pn = [] \<or> tn = [] then (Inl InvalidRequest, r)
      else case map_of (users r) tn of
        None \<Rightarrow> (Inl TeamNotFound, r)
      | Some t \<Rightarrow>
          if amt > budget t then (Inl BudgetExceeded, r)
          else if length (players t) \<ge> MAX_PLAYERS_PER_TEAM then (Inl RosterFull, r)
          else case findPlayer (blindBidPlayers cat) pn of
            None \<Rightarrow> (Inl PlayerNotFound, r)
          | Some pl \<Rightarrow>
              if pn \<in> soldPlayers r then (Inl PlayerAlreadySold, r)
              else (Inr (),
                    r\<lparr>blindBids :=
                         AList.update pn
                           ((newSession pn (ptype pl) None now Blind)
                              \<lparr>bids := [\<lparr>bidderTeam = tn, amount = amt, timestamp = now\<rparr>],
                               lastBidTime := Some now\<rparr>)
                           (blindBids r),
                       lastActivity := now\<rparr>))"
  unfolding place_blind_bid_def
  by (simp add: assms newSession_def cong: option.case_cong if_cong)

lemma place_blind_bid_Some:
  assumes "map_of (blindBids r) pn = Some bd"
  shows "place_blind_bid cat now pn amt tn r =
     (if pn = [] \<or> tn = [] then (Inl InvalidRequest, r)
      else case map_of (users r) tn of
        None \<Rightarrow> (Inl TeamNotFound, r)
      | Some t \<Rightarrow>
          if amt > budget t then (Inl BudgetExceeded, r)
          else if length (players t) \<ge> MAX_PLAYERS_PER_TEAM then (Inl RosterFull, r)
          else case findPlayer (blindBidPlayers cat) pn of
            None \<Rightarrow> (Inl PlayerNotFound, r)
          | Some pl \<Rightarrow>
              if pn \<in> soldPlayers r then (Inl PlayerAlreadySold, r)
              else if status bd \<noteq> Active then (Inl SessionNotActive, r)
              else if find (\<lambda>b. bidderTeam b = tn) (bids bd) \<noteq> None
                then (Inl DuplicateBid, r)
              else (Inr (),
                    r\<lparr>blindBids :=
                         AList.update pn
                           (bd\<lparr>bids := bids bd @
                                  [\<lparr>bidderTeam = tn, amount = amt, timestamp = now\<rparr>],
                               lastBidTime := Some now\<rparr>)
                           (blindBids r),
                       lastActivity := now\<rparr>))"
  unfolding place_blind_bid_def by (simp add: assms cong: option.case_cong if_cong)

lemma blindKept_same: "blindBids r' = blindBids r \<Longrightarrow> blindKept r r' pn"
  by (simp add: blindKept_def)

lemma blind_place_blind_bid:
  "(fst (place_blind_bid cat now k amt tn r) = Inr () \<and> k = pn
      \<and> openForBids (map_of (blindBids r) pn)
      \<and> (\<exists>bd'. map_of (blindBids (snd (place_blind_bid cat now k amt tn r))) pn = Some bd'
            \<and> status bd' = Active
            \<and> bids bd' = blindBidsOf r pn @ [\<lparr>bidderTeam = tn, amount = amt, timestamp = now\<rparr>]))
   \<or> (\<not> (fst (place_blind_bid cat now k amt tn r) = Inr () \<and> k = pn)
      \<and> map_of (blindBids (snd (place_blind_bid cat now k amt tn r))) pn = map_of (blindBids r) pn)"
proof (cases "map_of (blindBids r) k")
  case None
  show ?thesis
    unfolding place_blind_bid_None [OF None]
    using None
    by (auto simp: blindBidsOf_def openForBids_def update_conv' newSession_def
        split: option.split)
next
  case (Some bd)
  show ?thesis
    unfolding place_blind_bid_Some [OF Some]
    using Some
    by (auto simp: blindBidsOf_def openForBids_def update_conv' split: option.split)
qed

lemma blind_autoAward: "blindKept r (autoAwardBlindBidPlayer cat now k r) pn"
proof (cases "\<exists>bd. map_of (blindBids r) k = Some bd \<and> status bd = Active")
  case True
  then obtain bd where bd: "map_of (blindBids r) k = Some bd" "status bd = Active" by blast
  show ?thesis
    by (simp add: blindKept_def autoAwardBlind_session [OF bd] update_conv')
next
  case False
  then have "autoAwardBlindBidPlayer cat now k r = r"
    by (intro autoAwardBlind_inactive) (cases "map_of (blindBids r) k"; auto)
  then show ?thesis by (simp add: blindKept_def)
qed

lemma close_bidding_snd:
  "snd (close_bidding cat now pn bt r) = r
   \<or> snd (close_bidding cat now pn bt r) = autoAwardPlayer cat now pn r
   \<or> snd (close_bidding cat now pn bt r) = autoAwardBlindBidPlayer cat now pn r"
proof (cases "pn \<noteq> [] \<and> bt = ''regular'' \<and> (\<exists>bd. map_of (currentBids r) pn = Some bd \<and> status bd = Active)")
  case True
  then obtain bd where "map_of (currentBids r) pn = Some bd" "status bd = Active" "pn \<noteq> []"
    by blast
  from close_regular_active [OF this] True show ?thesis by simp
next
  case nr: False
  show ?thesis
  proof (cases "pn \<noteq> [] \<and> bt = ''blind'' \<and> (\<exists>bd. map_of (blindBids r) pn = Some bd \<and> status bd = Active)")
    case True
    then obtain bd where "map_of (blindBids r) pn = Some bd" "status bd = Active" "pn \<noteq> []"
      by blast
    from close_blind_active [OF this] True show ?thesis by simp
  next
    case False
    with nr have "snd (close_bidding cat now pn bt r) = r"
      unfolding close_bidding_def by (auto split: option.split)
    then show ?thesis by simp
  qed
qed

lemma blind_close_bidding: "blindKept r (snd (close_bidding cat now k bt r)) pn"
  using close_bidding_snd [of cat now k bt r] blind_autoAward [of r cat now k pn]
  by (auto simp: blindKept_same autoAwardPlayer_tables)

lemma blind_start_blind_bidding: "blindKept r (snd (start_blind_bidding cat now k r)) pn"
  unfolding start_blind_bidding_def
  by (auto simp: blindKept_def update_conv' newSession_def split: option.split)

lemma blind_blind_bids: "blindKept r (snd (blind_bids now k r)) pn"
  by (auto simp: blindKept_def blind_bids_def Let_def update_conv' split: option.split)

lemma blind_bidding_history: "blindKept r (bidding_history now r) pn"
  by (cases "map_of (blindBids r) pn")
    (auto simp: blindKept_def bidding_history_def map_of_sortTerminal)

lemma blind_untouched:
  "blindKept r (snd (select_player cat now k price tn r)) pn"
  "blindKept r (snd (place_bid cat now k amt tn r)) pn"
  "blindKept r (snd (start_bidding cat now k r)) pn"
  "blindKept r (autoAwardPlayer cat now k r) pn"
  "blindKept r (join_room now tn r) pn"
  "blindKept r (player_bids now k r) pn"
  "blindKept r (snd (room_bids now r)) pn"
  "blindKept r (snd (next_batch cat now r)) pn"
  "blindKept r (updateRoomActivity now r) pn"
  by (rule blindKept_same;
      simp add: select_player_def place_bid_frame start_bidding_def autoAwardPlayer_tables
        join_room_def player_bids_def room_bids_def next_batch_def updateRoomActivity_def
        Let_def split: option.split prod.split)+

lemma blind_step:
  "(\<exists>amt tn. opn = PlaceBlindBid pn amt tn \<and> fst (place_blind_bid cat now pn amt tn r) = Inr ()
      \<and> openForBids (map_of (blindBids r) pn)
      \<and> (\<exists>bd'. map_of (blindBids (step cat now opn r)) pn = Some bd' \<and> status bd' = Active
            \<and> bids bd' = blindBidsOf r pn @ [\<lparr>bidderTeam = tn, amount = amt, timestamp = now\<rparr>]))
   \<or> ((\<forall>amt tn. opn = PlaceBlindBid pn amt tn \<longrightarrow>
          fst (place_blind_bid cat now pn amt tn r) \<noteq> Inr ())
      \<and> blindKept r (step cat now opn r) pn)"
proof (cases opn)
  case (PlaceBlindBid k amt tn)
  then show ?thesis
    using blind_place_blind_bid [of cat now k amt tn r pn] by (auto simp: blindKept_def)
qed (simp_all add: blind_autoAward blind_close_bidding blind_start_blind_bidding
    blind_blind_bids blind_bidding_history blind_untouched timer_regular_eq timer_blind_eq)

lemma blind_arrival_order:
  assumes "map_of (blindBids (run cat ops r)) pn = Some bd'" "status bd' = Active"
  shows "openForBids (map_of (blindBids r) pn)
         \<and> bids bd' = blindBidsOf r pn @ blindArrivals cat pn ops r"
  using assms
proof (induction ops arbitrary: r)
  case Nil
  then show ?case by (simp add: openForBids_def blindBidsOf_def)
next
  case (Cons x ops)
  obtain now opn where x: "x = (now, opn)" by (cases x)
  let ?r' = "step cat now opn r"
  from Cons.prems have "map_of (blindBids (run cat ops ?r')) pn = Some bd'" by (simp add: x)
  from Cons.IH [OF this Cons.prems(2)] have
    IH: "openForBids (map_of (blindBids ?r') pn)"
      "bids bd' = blindBidsOf ?r' pn @ blindArrivals cat pn ops ?r'"
    by simp_all
  from blind_step [of opn pn cat now r] show ?case
  proof (elim disjE exE conjE)
    fix amt tn bd1
    assume a: "opn = PlaceBlindBid pn amt tn"
      "fst (place_blind_bid cat now pn amt tn r) = Inr ()"
      "openForBids (map_of (blindBids r) pn)"
      "map_of (blindBids ?r') pn = Some bd1"
      "bids bd1 = blindBidsOf r pn @ [\<lparr>bidderTeam = tn, amount = amt, timestamp = now\<rparr>]"
    from a(4,5) have "blindBidsOf ?r' pn
        = blindBidsOf r pn @ [\<lparr>bidderTeam = tn, amount = amt, timestamp = now\<rparr>]"
      by (simp add: blindBidsOf_def)
    with IH(2) a(1,2,3) show ?thesis by (simp add: x)
  next
    assume b: "\<forall>amt tn. opn = PlaceBlindBid pn amt tn \<longrightarrow>
          fst (place_blind_bid cat now pn amt tn r) \<noteq> Inr ()"
      "blindKept r ?r' pn"
    from b(1) have e: "blindArrivals cat pn (x # ops) r = blindArrivals cat pn ops ?r'"
      by (cases opn) (auto simp: x)
    from b(2) IH(1) have "openForBids (map_of (blindBids r) pn)
        \<and> blindBidsOf ?r' pn = blindBidsOf r pn"
      unfolding blindKept_def openForBids_def blindBidsOf_def by (auto split: option.splits)
    with IH(2) e show ?thesis by simp
  qed
qed


subsection \<open>The cycle index stays in range\<close>

lemma batchState_step:
  "batchState (step cat now opn r) = batchState r
   \<or> (opn = NextBatch \<and> batchState (step cat now opn r) = batchState (snd (next_batch cat now r)))"
proof (cases opn)
  case (CloseBidding pn bt)
  then show ?thesis
    using close_bidding_snd [of cat now pn bt r]
    by (auto simp: autoAwardPlayer_tables autoAwardBlind_tables)
qed (simp_all add: select_player_def place_bid_frame place_blind_bid_frame start_bidding_def
    start_blind_bidding_def timer_regular_eq timer_blind_eq autoAwardPlayer_tables
    autoAwardBlind_tables join_room_def player_bids_def blind_bids_def room_bids_def
    bidding_history_def updateRoomActivity_def Let_def split: option.split)

lemma next_batch_index:
  "currentCycleIndex (batchState (snd (next_batch cat now r))) < length CYCLE_ORDER
   \<or> currentCycleIndex (batchState (snd (next_batch cat now r))) = currentCycleIndex (batchState r)"
proof -
  have "length CYCLE_ORDER = 4" by (simp add: CYCLE_ORDER_def)
  then show ?thesis by (simp add: next_batch_def Let_def split: prod.split)
qed

lemma cycleIndex_reachable:
  "reachable cat r \<Longrightarrow> currentCycleIndex (batchState r) < length CYCLE_ORDER"
proof (induction rule: reachable.induct)
  case (created rid us bpu now r)
  then show ?case
    by (auto simp: create_room_def newBatchState_def CYCLE_ORDER_def Let_def split: if_splits)
next
  case (stepped r now opn)
  with batchState_step [of cat now opn r] next_batch_index [of cat now r] show ?case by auto
qed

subsection \<open>Runs and the small room\<close>

lemma reachable_run: "reachable cat r \<Longrightarrow> reachable cat (run cat ops r)"
proof (induction ops arbitrary: r)
  case Nil
  then show ?case by simp
next
  case (Cons x ops)
  obtain now opn where x: "x = (now, opn)" by (cases x)
  from Cons.IH [OF reachable.stepped [OF Cons.prems, of now opn]] show ?case by (simp add: x)
qed

lemma demo_created: "create_room ''R'' [''A'', ''B''] (Some 1000000) 0 = Inr demoRoom"
  by (simp add: create_room_def demoRoom_def)

lemma demoBought_eq:
  "demoBought = demoRoom
     \<lparr>users := [(''A'', \<lparr>username = ''A'', budget = 940000,
                  players = [\<lparr>name = ''P'', team = ''X'', ptype = ''BAT'',
                              basePrice = Some 50000, boughtPrice = 60000, boughtAt = 1,
                              awardedBy = None\<rparr>]\<rparr>),
                (''B'', newUser ''B'' 1000000)],
      soldPlayers := {''P''}, lastActivity := 1\<rparr>"
  by (simp add: demoBought_def select_player_def demoRoom_def demoCat_def newUser_def
      findPlayer_def MAX_PLAYERS_PER_TEAM_def buy_def purchase_def)


subsection \<open>Conservation of budget\<close>

lemma whole_Ints: "whole x \<longleftrightarrow> x \<in> \<int>"
  by (auto simp: whole_def Ints_def)

lemma jsMinus_exact:
  assumes "safe a" "whole p" "0 \<le> p" "p \<le> a"
  shows "jsMinus a p = a - p" "safe (a - p)"
proof -
  from assms have i: "a \<in> \<int>" "p \<in> \<int>" and b: "\<bar>a - p\<bar> < 2 ^ 53"
    by (auto simp: safe_def whole_Ints)
  then show "jsMinus a p = a - p" by (simp add: jsMinus_whole)
  from i b show "safe (a - p)" by (simp add: safe_def whole_Ints)
qed

lemma tableAmounts_update:
  "tableAmounts (AList.update k v tbl) \<subseteq> amount ` set (bids v) \<union> tableAmounts tbl"
proof -
  have "set (AList.update k v tbl) \<subseteq> insert (k, v) (set tbl)"
    by (induction tbl) auto
  then show ?thesis unfolding tableAmounts_def by fastforce
qed

lemma tableAmounts_lookup:
  "map_of tbl k = Some bd \<Longrightarrow> amount ` set (bids bd) \<subseteq> tableAmounts tbl"
  unfolding tableAmounts_def by (force dest: map_of_SomeD)

lemma tableAmounts_sorts [simp]:
  "tableAmounts (sortActive tbl) = tableAmounts tbl"
  "tableAmounts (sortTerminal tbl) = tableAmounts tbl"
  unfolding tableAmounts_def sortActive_def sortTerminal_def
  by (force split: if_splits)+

lemma held_autoAwardPlayer: "heldAmounts (autoAwardPlayer cat now pn r) \<subseteq> heldAmounts r"
proof (cases "\<exists>bd. map_of (currentBids r) pn = Some bd \<and> status bd = Active")
  case True
  then obtain bd where bd: "map_of (currentBids r) pn = Some bd" "status bd = Active" by blast
  from tableAmounts_update [of pn "resolvedSession cat r pn bd now" "currentBids r"]
    tableAmounts_lookup [OF bd(1)]
  show ?thesis
    by (auto simp: heldAmounts_def autoAwardPlayer_session [OF bd] autoAwardPlayer_tables)
next
  case False
  then have "autoAwardPlayer cat now pn r = r"
    by (intro autoAwardPlayer_inactive) (cases "map_of (currentBids r) pn"; auto)
  then show ?thesis by simp
qed

lemma held_autoAwardBlind: "heldAmounts (autoAwardBlindBidPlayer cat now pn r) \<subseteq> heldAmounts r"
proof (cases "\<exists>bd. map_of (blindBids r) pn = Some bd \<and> status bd = Active")
  case True
  then obtain bd where bd: "map_of (blindBids r) pn = Some bd" "status bd = Active" by blast
  from tableAmounts_update [of pn "resolvedSession (blindBidPlayers cat) r pn bd now" "blindBids r"]
    tableAmounts_lookup [OF bd(1)]
  show ?thesis
    by (auto simp: heldAmounts_def autoAwardBlind_session [OF bd] autoAwardBlind_tables)
next
  case False
  then have "autoAwardBlindBidPlayer cat now pn r = r"
    by (intro autoAwardBlind_inactive) (cases "map_of (blindBids r) pn"; auto)
  then show ?thesis by simp
qed

lemma held_close_bidding: "heldAmounts (snd (close_bidding cat now pn bt r)) \<subseteq> heldAmounts r"
  using close_bidding_snd [of cat now pn bt r]
    held_autoAwardPlayer [of cat now pn r] held_autoAwardBlind [of cat now pn r]
  by auto

lemma held_place_bid:
  "heldAmounts (snd (place_bid cat now pn amt tn r)) \<subseteq> insert amt (heldAmounts r)"
  using place_bid_currentBids [of cat now pn amt tn r]
proof (elim disjE conjE exE)
  fix bd'
  assume a: "currentBids (snd (place_bid cat now pn amt tn r)) = AList.update pn bd' (currentBids r)"
    "set (bids bd') \<subseteq> insert \<lparr>bidderTeam = tn, amount = amt, timestamp = now\<rparr>
         (case map_of (currentBids r) pn of None \<Rightarrow> {} | Some bd \<Rightarrow> set (bids bd))"
  have "amount ` set (bids bd') \<subseteq> insert amt (tableAmounts (currentBids r))"
  proof (cases "map_of (currentBids r) pn")
    case None
    with a(2) show ?thesis by auto
  next
    case (Some bd)
    with a(2) tableAmounts_lookup [OF Some] show ?thesis by fastforce
  qed
  with tableAmounts_update [of pn bd' "currentBids r"] show ?thesis
    by (auto simp: heldAmounts_def a(1) place_bid_frame)
qed (auto simp: heldAmounts_def place_bid_frame)

lemma held_place_blind_bid:
  "heldAmounts (snd (place_blind_bid cat now pn amt tn r)) \<subseteq> insert amt (heldAmounts r)"
  using place_blind_bid_blindBids [of cat now pn amt tn r]
proof (elim disjE conjE exE)
  fix bd'
  assume a: "blindBids (snd (place_blind_bid cat now pn amt tn r)) = AList.update pn bd' (blindBids r)"
    "set (bids bd') \<subseteq> insert \<lparr>bidderTeam = tn, amount = amt, timestamp = now\<rparr>
         (case map_of (blindBids r) pn of None \<Rightarrow> {} | Some bd \<Rightarrow> set (bids bd))"
  have "amount ` set (bids bd') \<subseteq> insert amt (tableAmounts (blindBids r))"
  proof (cases "map_of (blindBids r) pn")
    case None
    with a(2) show ?thesis by auto
  next
    case (Some bd)
    with a(2) tableAmounts_lookup [OF Some] show ?thesis by fastforce
  qed
  with tableAmounts_update [of pn bd' "blindBids r"] show ?thesis
    by (auto simp: heldAmounts_def a(1) place_blind_bid_frame)
qed (auto simp: heldAmounts_def place_blind_bid_frame)

lemma tableAmounts_update_empty:
  "x \<in> tableAmounts (AList.update k v tbl) \<Longrightarrow> bids v = [] \<Longrightarrow> x \<in> tableAmounts tbl"
  using tableAmounts_update [of k v tbl] by auto

lemma held_start:
  "heldAmounts (snd (start_bidding cat now pn r)) \<subseteq> heldAmounts r"
  "heldAmounts (snd (start_blind_bidding cat now pn r)) \<subseteq> heldAmounts r"
  unfolding start_bidding_def start_blind_bidding_def heldAmounts_def
  by (auto simp: newSession_def split: option.split dest!: tableAmounts_update_empty)

lemma held_untouched:
  "heldAmounts (snd (select_player cat now pn price tn r)) = heldAmounts r"
  "heldAmounts (join_room now tn r) = heldAmounts r"
  "heldAmounts (snd (next_batch cat now r)) = heldAmounts r"
  "heldAmounts (updateRoomActivity now r) = heldAmounts r"
  "heldAmounts (snd (room_bids now r)) = heldAmounts r"
  "heldAmounts (bidding_history now r) = heldAmounts r"
  by (simp_all add: heldAmounts_def select_player_def join_room_def next_batch_def
      updateRoomActivity_def room_bids_def bidding_history_def Let_def
      split: option.split prod.split)

lemma held_player_bids: "heldAmounts (player_bids now pn r) \<subseteq> heldAmounts r"
proof (cases "map_of (currentBids r) pn")
  case None
  then show ?thesis by (simp add: player_bids_def)
next
  case (Some bd)
  with tableAmounts_update [of pn "bd\<lparr>bids := sortBids (bids bd)\<rparr>" "currentBids r"]
    tableAmounts_lookup [OF Some]
  show ?thesis by (auto simp: player_bids_def heldAmounts_def)
qed

lemma held_blind_bids: "heldAmounts (snd (blind_bids now pn r)) \<subseteq> heldAmounts r"
proof (cases "map_of (blindBids r) pn")
  case None
  then show ?thesis by (simp add: blind_bids_def)
next
  case (Some bd)
  with tableAmounts_update [of pn "bd\<lparr>bids := sortBids (bids bd)\<rparr>" "blindBids r"]
    tableAmounts_lookup [OF Some]
  show ?thesis by (auto simp: blind_bids_def heldAmounts_def Let_def)
qed

lemma held_step:
  "heldAmounts (step cat now opn r) \<subseteq> heldAmounts r \<union> set_option (amountOf opn)"
proof (cases opn)
  case (PlaceBid pn amt tn)
  then show ?thesis using held_place_bid [of cat now pn amt tn r] by auto
next
  case (PlaceBlindBid pn amt tn)
  then show ?thesis using held_place_blind_bid [of cat now pn amt tn r] by auto
next
  case (CloseBidding pn bt)
  then show ?thesis using held_close_bidding [of cat now pn bt r] by auto
next
  case (TimerRegular pn)
  then show ?thesis using held_autoAwardPlayer [of cat now pn r] by (auto simp: timer_regular_eq)
next
  case (TimerBlind pn)
  then show ?thesis using held_autoAwardBlind [of cat now pn r] by (auto simp: timer_blind_eq)
next
  case (StartBidding pn)
  then show ?thesis using held_start(1) [of cat now pn r] by auto
next
  case (StartBlindBidding pn)
  then show ?thesis using held_start(2) [of cat now pn r] by auto
next
  case (PlayerBids pn)
  then show ?thesis using held_player_bids [of now pn r] by auto
next
  case (BlindBids pn)
  then show ?thesis using held_blind_bids [of now pn r] by auto
qed (auto simp: held_untouched)

lemma awardee_Some:
  assumes "awardee ps r pn bd = Some (w, t, pl)"
  shows "w \<in> set (bids bd)" "map_of (users r) (bidderTeam w) = Some t" "amount w \<le> budget t"
proof -
  from assms have w: "winningBid (bids bd) = Some w"
    and t: "map_of (users r) (bidderTeam w) = Some t" and a: "amount w \<le> budget t"
    by (auto simp: awardee_def split: option.splits if_splits)
  from winningBid_max [OF w] show "w \<in> set (bids bd)" by simp
  from t show "map_of (users r) (bidderTeam w) = Some t" .
  from a show "amount w \<le> budget t" .
qed

lemma bought_autoAwardPlayer:
  "users (autoAwardPlayer cat now pn r) = users r \<or> bought r opn (autoAwardPlayer cat now pn r)"
proof (cases "\<exists>bd. map_of (currentBids r) pn = Some bd \<and> status bd = Active")
  case True
  then obtain bd where bd: "map_of (currentBids r) pn = Some bd" "status bd = Active" by blast
  show ?thesis
  proof (cases "awardee cat r pn bd")
    case None
    then show ?thesis by (simp add: autoAwardPlayer_active [OF bd])
  next
    case (Some x)
    obtain w t pl where x: "x = (w, t, pl)" by (cases x)
    note a = awardee_Some [OF Some [unfolded x]]
    from a(1) tableAmounts_lookup [OF bd(1)] have "amount w \<in> heldAmounts r"
      by (auto simp: heldAmounts_def)
    with a(2,3) have "bought r opn (autoAwardPlayer cat now pn r)"
      unfolding bought_def autoAwardPlayer_active [OF bd] Some x
      by (intro exI [of _ "bidderTeam w"] exI [of _ t]
          exI [of _ "purchase pn pl (basePrice pl) (amount w) now (Some ''auto_highest_bid'')"])
        (simp add: purchase_def)
    then show ?thesis ..
  qed
next
  case False
  then have "autoAwardPlayer cat now pn r = r"
    by (intro autoAwardPlayer_inactive) (cases "map_of (currentBids r) pn"; auto)
  then show ?thesis by simp
qed

lemma bought_autoAwardBlind:
  "users (autoAwardBlindBidPlayer cat now pn r) = users r
   \<or> bought r opn (autoAwardBlindBidPlayer cat now pn r)"
proof (cases "\<exists>bd. map_of (blindBids r) pn = Some bd \<and> status bd = Active")
  case True
  then obtain bd where bd: "map_of (blindBids r) pn = Some bd" "status bd = Active" by blast
  show ?thesis
  proof (cases "awardee (blindBidPlayers cat) r pn bd")
    case None
    then show ?thesis by (simp add: autoAwardBlind_active [OF bd])
  next
    case (Some x)
    obtain w t pl where x: "x = (w, t, pl)" by (cases x)
    note a = awardee_Some [OF Some [unfolded x]]
    from a(1) tableAmounts_lookup [OF bd(1)] have "amount w \<in> heldAmounts r"
      by (auto simp: heldAmounts_def)
    with a(2,3) have "bought r opn (autoAwardBlindBidPlayer cat now pn r)"
      unfolding bought_def autoAwardBlind_active [OF bd] Some x
      by (intro exI [of _ "bidderTeam w"] exI [of _ t]
          exI [of _ "purchase pn pl None (amount w) now (Some ''auto_blind_bid'')"])
        (simp add: purchase_def)
    then show ?thesis ..
  qed
next
  case False
  then have "autoAwardBlindBidPlayer cat now pn r = r"
    by (intro autoAwardBlind_inactive) (cases "map_of (blindBids r) pn"; auto)
  then show ?thesis by simp
qed

lemma bought_select_player:
  "users (snd (select_player cat now pn price tn r)) = users r
   \<or> bought r (SelectPlayer pn price tn) (snd (select_player cat now pn price tn r))"
proof (cases "fst (select_player cat now pn price tn r)")
  case (Inl e)
  then have "snd (select_player cat now pn price tn r) = r"
    unfolding select_player_def by (auto split: option.splits if_splits)
  then show ?thesis by simp
next
  case (Inr u)
  then obtain t pl where t: "map_of (users r) tn = Some t" "price \<le> budget t"
    and u: "users (snd (select_player cat now pn price tn r)) =
              AList.update tn (buy t (purchase pn pl (basePrice pl) price now None)) (users r)"
    unfolding select_player_def by (auto split: option.splits if_splits)
  have "bought r (SelectPlayer pn price tn) (snd (select_player cat now pn price tn r))"
    unfolding bought_def u
    using t
    by (intro exI [of _ tn] exI [of _ t]
        exI [of _ "purchase pn pl (basePrice pl) price now None"]) (simp add: purchase_def)
  then show ?thesis ..
qed

lemma joined_or_same:
  "users (join_room now tn r) = users r
   \<or> (map_of (users r) tn = None \<and>
       users (join_room now tn r) =
         AList.update tn
           (newUser tn (if budgetPerUser r = 0 then DEFAULT_BUDGET else budgetPerUser r))
           (users r))"
  by (simp add: join_room_def split: option.split)

lemma users_step:
  "users (step cat now opn r) = users r
   \<or> bought r opn (step cat now opn r)
   \<or> (\<exists>tn. map_of (users r) tn = None \<and>
         users (step cat now opn r) =
           AList.update tn
             (newUser tn (if budgetPerUser r = 0 then DEFAULT_BUDGET else budgetPerUser r))
             (users r))"
proof (cases opn)
  case (SelectPlayer pn price tn)
  then show ?thesis using bought_select_player [of cat now pn price tn r] by auto
next
  case (CloseBidding pn bt)
  then show ?thesis
    using close_bidding_snd [of cat now pn bt r] bought_autoAwardPlayer [of cat now pn r opn]
      bought_autoAwardBlind [of cat now pn r opn]
    by auto
next
  case (TimerRegular pn)
  then show ?thesis
    using bought_autoAwardPlayer [of cat now pn r opn] by (auto simp: timer_regular_eq)
next
  case (TimerBlind pn)
  then show ?thesis
    using bought_autoAwardBlind [of cat now pn r opn] by (auto simp: timer_blind_eq)
next
  case (JoinRoom tn)
  then show ?thesis using joined_or_same [of now tn r] by auto
qed (simp_all add: place_bid_frame place_blind_bid_frame start_bidding_def
    start_blind_bidding_def next_batch_def player_bids_def blind_bids_def room_bids_def
    bidding_history_def updateRoomActivity_def Let_def split: option.split prod.split)

lemma total_worth: "totalBudget r + totalSpent r = sum_list (map (\<lambda>(k, u). worth u) (users r))"
proof -
  have "\<And>xs :: (string \<times> user) list.
      sum_list (map (\<lambda>(k, u). budget u) xs)
      + sum_list (map (\<lambda>(k, u). sum_list (map boughtPrice (players u))) xs)
      = sum_list (map (\<lambda>(k, u). worth u) xs)"
    subgoal for xs by (induction xs) (auto simp: worth_def)
    done
  then show ?thesis by (simp add: totalBudget_def totalSpent_def)
qed

lemma worth_newUser [simp]: "worth (newUser u b) = b"
  by (simp add: worth_def newUser_def)

lemma sum_update_Some:
  "map_of xs k = Some t \<Longrightarrow>
     sum_list (map (\<lambda>(k, u). f u) (AList.update k t' xs))
       = sum_list (map (\<lambda>(k, u). f u) xs) - f t + (f t' :: number)"
  by (induction xs) (auto split: if_splits)

lemma sum_update_None:
  "map_of xs k = None \<Longrightarrow>
     sum_list (map (\<lambda>(k, u). f u) (AList.update k t' xs))
       = sum_list (map (\<lambda>(k, u). f u) xs) + (f t' :: number)"
  by (induction xs) (auto split: if_splits)

lemma length_update_Some: "map_of xs k = Some t \<Longrightarrow> length (AList.update k t' xs) = length xs"
  by (induction xs) (auto split: if_splits)

lemma length_update_None: "map_of xs k = None \<Longrightarrow> length (AList.update k t' xs) = Suc (length xs)"
  by (induction xs) (auto split: if_splits)

lemma conserved_ledgerChange:
  assumes "conserved r" "ledgerChange r r'"
  shows "conserved r'"
proof -
  from assms(2) have b: "budgetPerUser r' = budgetPerUser r" by (simp add: ledgerChange_def)
  from assms(2) consider
    (same) "users r' = users r"
    | (bought) tn t pp where "map_of (users r) tn = Some t"
        "users r' = AList.update tn
           (t\<lparr>budget := budget t - boughtPrice pp, players := players t @ [pp]\<rparr>) (users r)"
    | (joined) tn where "map_of (users r) tn = None"
        "users r' = AList.update tn
              (newUser tn (if budgetPerUser r = 0 then DEFAULT_BUDGET else budgetPerUser r))
              (users r)"
    unfolding ledgerChange_def by blast
  then show ?thesis
  proof cases
    case same
    with assms(1) b show ?thesis
      by (simp add: conserved_def total_worth initialTotalBudget_def)
  next
    case bought
    have "worth (t\<lparr>budget := budget t - boughtPrice pp, players := players t @ [pp]\<rparr>) = worth t"
      by (simp add: worth_def)
    with bought assms(1) b show ?thesis
      by (simp add: conserved_def total_worth initialTotalBudget_def sum_update_Some
          length_update_Some)
  next
    case joined
    with assms(1) b show ?thesis
      by (simp add: conserved_def total_worth initialTotalBudget_def sum_update_None
          length_update_None algebra_simps)
  qed
qed

lemma set_update_subset: "set (AList.update k v xs) \<subseteq> insert (k, v) (set xs)"
  by (induction xs) auto

lemma safe_update:
  assumes "\<forall>(k, u) \<in> set xs. safe (budget u)" "safe (budget v)"
  shows "\<forall>(k, u) \<in> set (AList.update tn v xs). safe (budget u)"
  using set_update_subset [of tn v xs] assms by blast

lemma exact_step:
  assumes "exactLedger r" "wholeAmount opn"
  shows "ledgerChange r (step cat now opn r)" "exactLedger (step cat now opn r)"
proof -
  let ?r' = "step cat now opn r"
  from usersChange_step [of r cat now opn] have b: "budgetPerUser ?r' = budgetPerUser r"
    by (simp add: usersChange_def)
  from assms have h: "\<forall>x \<in> heldAmounts r \<union> set_option (amountOf opn). whole x \<and> 0 \<le> x"
    by (auto simp: exactLedger_def wholeAmount_def split: option.splits)
  with held_step [of cat now opn r] have h': "\<forall>x \<in> heldAmounts ?r'. whole x \<and> 0 \<le> x"
    by blast
  from assms(1) have s: "\<forall>(k, u) \<in> set (users r). safe (budget u)"
    and sb: "safe (budgetPerUser r)"
    by (simp_all add: exactLedger_def)
  from users_step [of cat now opn r]
  have "ledgerChange r ?r' \<and> (\<forall>(k, u) \<in> set (users ?r'). safe (budget u))"
  proof (elim disjE exE conjE)
    assume "users ?r' = users r"
    with b s show ?thesis by (simp add: ledgerChange_def)
  next
    assume "bought r opn ?r'"
    then obtain tn t pp where t: "map_of (users r) tn = Some t" "boughtPrice pp \<le> budget t"
      "boughtPrice pp \<in> heldAmounts r \<union> set_option (amountOf opn)"
      and u: "users ?r' = AList.update tn (buy t pp) (users r)"
      unfolding bought_def by blast
    from t(1) s have "safe (budget t)" by (auto dest: map_of_SomeD)
    from jsMinus_exact [OF this _ _ t(2)] h t(3)
    have e: "jsMinus (budget t) (boughtPrice pp) = budget t - boughtPrice pp"
      "safe (budget t - boughtPrice pp)"
      by blast+
    then have eq: "buy t pp = t\<lparr>budget := budget t - boughtPrice pp, players := players t @ [pp]\<rparr>"
      by (simp add: buy_def)
    have "ledgerChange r ?r'"
      unfolding ledgerChange_def using b t(1,2) u eq by auto
    moreover have "\<forall>(k, u) \<in> set (users ?r'). safe (budget u)"
      unfolding u eq using e(2) by (intro safe_update [OF s]) simp
    ultimately show ?thesis ..
  next
    fix tn
    assume n: "map_of (users r) tn = None"
      and u: "users ?r' = AList.update tn
             (newUser tn (if budgetPerUser r = 0 then DEFAULT_BUDGET else budgetPerUser r))
             (users r)"
    have "ledgerChange r ?r'"
      unfolding ledgerChange_def using b n u by auto
    moreover have "safe (if budgetPerUser r = 0 then DEFAULT_BUDGET else budgetPerUser r)"
      using sb by (simp add: safe_def whole_Ints DEFAULT_BUDGET_def)
    then have "\<forall>(k, u) \<in> set (users ?r'). safe (budget u)"
      unfolding u by (intro safe_update [OF s]) (simp add: newUser_def)
    ultimately show ?thesis ..
  qed
  then show "ledgerChange r ?r'" "exactLedger ?r'"
    using b sb h' by (simp_all add: exactLedger_def)
qed

lemma fold_newUser_budget:
  "\<forall>(k, u) \<in> set acc. budget u = b \<and> players u = [] \<Longrightarrow>
     \<forall>(k, u) \<in> set (fold (\<lambda>u acc. AList.update u (newUser u b) acc) us acc).
        budget u = b \<and> players u = []"
proof (induction us arbitrary: acc)
  case Nil
  then show ?case by simp
next
  case (Cons a us)
  from Cons.prems set_update_subset [of a "newUser a b" acc]
  have "\<forall>(k, u) \<in> set (AList.update a (newUser a b) acc). budget u = b \<and> players u = []"
    by (auto simp: newUser_def)
  from Cons.IH [OF this] show ?case by simp
qed

lemma sum_const_worth:
  "\<forall>(k, u) \<in> set xs. worth u = b \<Longrightarrow>
     sum_list (map (\<lambda>(k, u). worth u) xs) = of_nat (length xs) * b"
  by (induction xs) (auto simp: algebra_simps)

lemma created_ledger:
  assumes "create_room rid us bpu now = Inr r"
  shows "conserved r" "safe (budgetPerUser r) \<Longrightarrow> exactLedger r"
proof -
  define b where "b = (case bpu of None \<Rightarrow> DEFAULT_BUDGET
                 | Some x \<Rightarrow> if x = 0 then DEFAULT_BUDGET else x)"
  have b0: "b \<noteq> 0" by (simp add: b_def DEFAULT_BUDGET_def split: option.split)
  from assms have u: "users r = fold (\<lambda>u acc. AList.update u (newUser u b) acc) us []"
    and bp: "budgetPerUser r = b" and t: "currentBids r = []" "blindBids r = []"
    by (auto simp: create_room_def b_def Let_def split: if_splits)
  have f: "\<forall>(k, u) \<in> set (users r). budget u = b \<and> players u = []"
    unfolding u by (rule fold_newUser_budget) simp
  then have "\<forall>(k, u) \<in> set (users r). worth u = b" by (auto simp: worth_def)
  then show "conserved r"
    using b0 bp by (simp add: conserved_def total_worth initialTotalBudget_def sum_const_worth)
  show "exactLedger r" if "safe (budgetPerUser r)"
    using that f bp t by (auto simp: exactLedger_def heldAmounts_def tableAmounts_def)
qed

lemma run_ledger:
  assumes "conserved r" "exactLedger r" "list_all wholeAmount (map snd ops)"
  shows "conserved (run cat ops r) \<and> exactLedger (run cat ops r)"
  using assms
proof (induction ops arbitrary: r)
  case Nil
  then show ?case by simp
next
  case (Cons x ops)
  obtain now opn where x: "x = (now, opn)" by (cases x)
  from Cons.prems(3) have w: "wholeAmount opn" "list_all wholeAmount (map snd ops)"
    by (simp_all add: x)
  note e = exact_step [OF Cons.prems(2) w(1), of cat now]
  from Cons.IH [OF conserved_ledgerChange [OF Cons.prems(1) e(1)] e(2) w(2)]
  show ?case by (simp add: x)
qed

text \<open>
  C1. Take a room created with a safe configured budget and any sequence of operations
  whose prices and bid amounts are whole numbers that are not negative. In the room the
  sequence leads to, the remaining budgets of the teams plus the purchase prices recorded
  in their rosters add up to the number of teams times the configured budget; and one more
  such operation changes the teams by at most one purchase within the buyer's budget, which
  debits the buyer by exactly the price of the record it appends, or by one team joining
  with the configured budget.
\<close>

theorem budget_conservation:
  assumes "create_room rid us bpu t0 = Inr r0" "safe (budgetPerUser r0)"
    and "list_all wholeAmount (map snd ops)" "wholeAmount opn"
  shows "totalBudget (run cat ops r0) + totalSpent (run cat ops r0)
           = initialTotalBudget (run cat ops r0)
         \<and> ledgerChange (run cat ops r0) (step cat now opn (run cat ops r0))"
proof -
  note c = created_ledger [OF assms(1)]
  from run_ledger [OF c(1) c(2) [OF assms(2)] assms(3), of cat]
  have "conserved (run cat ops r0)" "exactLedger (run cat ops r0)" by simp_all
  with exact_step(1) [OF _ assms(4)] show ?thesis by (simp add: conserved_def)
qed

theorem budget_conservation_witness:
  "create_room ''R'' [''A'', ''B''] (Some 1000000) 0 = Inr demoRoom
   \<and> safe (budgetPerUser demoRoom)
   \<and> list_all wholeAmount (map snd [(1 :: nat, SelectPlayer ''P'' 60000 ''A'')])
   \<and> wholeAmount (SelectPlayer ''Q'' 70000 ''B'')
   \<and> run demoCat [(1, SelectPlayer ''P'' 60000 ''A'')] demoRoom = demoBought
   \<and> totalBudget demoBought = 1940000 \<and> totalSpent demoBought = 60000
   \<and> initialTotalBudget demoBought = 2000000
   \<and> totalBudget demoBought + totalSpent demoBought = initialTotalBudget demoBought
   \<and> ledgerChange demoBought (step demoCat 2 (SelectPlayer ''Q'' 70000 ''B'') demoBought)"
proof -
  have s: "safe (budgetPerUser demoRoom)"
    by (simp add: demoRoom_def safe_def whole_def)
  have w: "list_all wholeAmount (map snd [(1 :: nat, SelectPlayer ''P'' 60000 ''A'')])"
    "wholeAmount (SelectPlayer ''Q'' 70000 ''B'')"
    by (simp_all add: wholeAmount_def whole_def)
  have r: "run demoCat [(1, SelectPlayer ''P'' 60000 ''A'')] demoRoom = demoBought"
    by (simp add: demoBought_def)
  have v: "totalBudget demoBought = 1940000" "totalSpent demoBought = 60000"
    "initialTotalBudget demoBought = 2000000"
    by (simp_all add: demoBought_eq totalBudget_def totalSpent_def initialTotalBudget_def
        demoRoom_def newUser_def)
  from v have c: "totalBudget demoBought + totalSpent demoBought = initialTotalBudget demoBought"
    by simp
  from budget_conservation [OF demo_created s w, of demoCat 2]
  have l: "ledgerChange demoBought (step demoCat 2 (SelectPlayer ''Q'' 70000 ''B'') demoBought)"
    unfolding r by (rule conjunct2)
  show ?thesis by (intro conjI demo_created s w r v c l)
qed

text \<open>
  With a configured budget of \<open>10\<^sup>1\<^sup>7\<close> the direct purchase of a player for 1 leaves the
  buyer's budget where it was, with the player in the roster: the sum is off by one. A
  price with a fractional part is rounded in the same way, and a negative price, which
  the handler of the direct purchase takes, raises a budget until it is rounded.
\<close>

lemma jsMinus_big: "jsMinus 100000000000000000 1 = 100000000000000000"
  by code_simp

lemma fraction_rounds:
  "jsMinus 1000000 (toDouble (1 / 10)) + toDouble (1 / 10) \<noteq> 1000000"
  by code_simp

lemma negative_price_rounds:
  "jsMinus 9007199254740991 (- 1) = 9007199254740992"
  "jsMinus 9007199254740992 (- 1) = 9007199254740992"
  by code_simp+

lemma big_created: "create_room ''R'' [''A'', ''B''] (Some 100000000000000000) 0 = Inr demoBig"
  by (simp add: create_room_def demoBig_def)

lemma demoBigBought_eq:
  "demoBigBought = demoBig
     \<lparr>users := [(''A'', \<lparr>username = ''A'', budget = 100000000000000000,
                  players = [\<lparr>name = ''P'', team = ''X'', ptype = ''BAT'',
                              basePrice = Some 50000, boughtPrice = 1, boughtAt = 1,
                              awardedBy = None\<rparr>]\<rparr>),
                (''B'', newUser ''B'' 100000000000000000)],
      soldPlayers := {''P''}, lastActivity := 1\<rparr>"
  by (simp add: demoBigBought_def select_player_def demoBig_def demoCat_def newUser_def
      findPlayer_def MAX_PLAYERS_PER_TEAM_def buy_def purchase_def jsMinus_big)

theorem budget_rounding_counterexample:
  "create_room ''R'' [''A'', ''B''] (Some 100000000000000000) 0 = Inr demoBig
   \<and> demoBigBought = step demoCat 1 (SelectPlayer ''P'' 1 ''A'') demoBig
   \<and> reachable demoCat demoBigBought
   \<and> map_option budget (map_of (users demoBigBought) ''A'') = Some 100000000000000000
   \<and> map_option (map boughtPrice \<circ> players) (map_of (users demoBigBought) ''A'') = Some [1]
   \<and> totalBudget demoBigBought = 200000000000000000 \<and> totalSpent demoBigBought = 1
   \<and> initialTotalBudget demoBigBought = 200000000000000000
   \<and> totalBudget demoBigBought + totalSpent demoBigBought \<noteq> initialTotalBudget demoBigBought"
proof -
  have r: "reachable demoCat demoBigBought"
    unfolding demoBigBought_def by (intro reachable.stepped reachable.created [OF big_created])
  have v: "totalBudget demoBigBought = 200000000000000000" "totalSpent demoBigBought = 1"
    "initialTotalBudget demoBigBought = 200000000000000000"
    by (simp_all add: demoBigBought_eq totalBudget_def totalSpent_def initialTotalBudget_def
        demoBig_def newUser_def)
  have u: "map_option budget (map_of (users demoBigBought) ''A'') = Some 100000000000000000"
    "map_option (map boughtPrice \<circ> players) (map_of (users demoBigBought) ''A'') = Some [1]"
    by (simp_all add: demoBigBought_eq)
  from v have n: "totalBudget demoBigBought + totalSpent demoBigBought
                    \<noteq> initialTotalBudget demoBigBought"
    by simp
  show ?thesis by (intro conjI big_created demoBigBought_def r v u n)
qed

subsection \<open>A sold player and the award functions\<close>

lemma demoDouble_run:
  "run demoCat demoDouble demoRoom =
     demoRoom
       \<lparr>users := [(''A'', newUser ''A'' 1000000),
                  (''B'', \<lparr>username = ''B'', budget = 940000,
                          players = [\<lparr>name = ''P'', team = ''X'', ptype = ''BAT'',
                                      basePrice = Some 50000, boughtPrice = 60000,
                                      boughtAt = 3, awardedBy = None\<rparr>]\<rparr>)],
        soldPlayers := {''P''},
        currentBids := [(''P'', (newSession ''P'' ''BAT'' (Some 50000) 1 Regular)
                                  \<lparr>bids := [\<lparr>bidderTeam = ''A'', amount = 100000, timestamp = 2\<rparr>],
                                   lastBidTime := Some 2\<rparr>)],
        lastActivity := 3\<rparr>"
  by (simp add: demoDouble_def start_bidding_def place_bid_def select_player_def demoRoom_def
      demoCat_def newUser_def findPlayer_def MAX_PLAYERS_PER_TEAM_def newSession_def
      currentHighestBid_def buy_def purchase_def)

text \<open>Every handler that admits a purchase, a bid or a new session rejects a sold player.\<close>

lemma entry_paths_reject_sold:
  assumes "pn \<in> soldPlayers r"
  shows "snd (select_player cat now pn price tn r) = r"
    "snd (place_bid cat now pn amt tn r) = r"
    "snd (place_blind_bid cat now pn amt tn r) = r"
    "snd (start_bidding cat now pn r) = r"
    "snd (start_blind_bidding cat now pn r) = r"
    "\<exists>e. fst (select_player cat now pn price tn r) = Inl e"
    "\<exists>e. fst (place_bid cat now pn amt tn r) = Inl e"
    "\<exists>e. fst (place_blind_bid cat now pn amt tn r) = Inl e"
    "\<exists>e. fst (start_bidding cat now pn r) = Inl e"
    "\<exists>e. fst (start_blind_bidding cat now pn r) = Inl e"
  using assms
  by (simp_all add: select_player_def place_bid_def place_blind_bid_def start_bidding_def
      start_blind_bidding_def split: option.split)

text \<open>
  C2 at a concrete run. A regular session for the player is open and holds a bid of team A;
  team B then buys the player directly, which puts the name into the sold set with one
  record; when the session's timer fires, the award function, which does not look at the
  sold set, awards the player again to team A. The name is in the sold set and two roster
  records carry it.
\<close>

theorem sold_player_awarded_again:
  "''P'' \<in> soldPlayers (run demoCat demoDouble demoRoom)
   \<and> recordsFor (run demoCat demoDouble demoRoom) ''P'' = 1
   \<and> ''P'' \<in> soldPlayers (timer_regular demoCat 4 ''P'' (run demoCat demoDouble demoRoom))
   \<and> recordsFor (timer_regular demoCat 4 ''P'' (run demoCat demoDouble demoRoom)) ''P'' = 2
   \<and> map (\<lambda>(k, u). (k, budget u, map name (players u)))
        (users (timer_regular demoCat 4 ''P'' (run demoCat demoDouble demoRoom)))
       = [(''A'', 900000, [''P'']), (''B'', 940000, [''P''])]"
  unfolding demoDouble_run
  by (simp add: recordsFor_def timer_regular_def autoAwardPlayer_def demoRoom_def demoCat_def
      newUser_def findPlayer_def MAX_PLAYERS_PER_TEAM_def newSession_def winningBid_def
      sortBids_def buy_def purchase_def soldSession_def)


subsection \<open>Batch dispatch\<close>

lemma scanBatch_fresh:
  "distinct (map name ps) \<Longrightarrow> name ` set ps \<inter> sent = {} \<Longrightarrow>
     scanBatch n ps acc sent =
       (acc @ take (n - length acc) ps, sent \<union> name ` set (take (n - length acc) ps))"
proof (induction ps arbitrary: acc sent)
  case Nil
  then show ?case by simp
next
  case (Cons p ps)
  show ?case
  proof (cases "length acc < n")
    case True
    then obtain m where m: "n - length acc = Suc m" by (cases "n - length acc") auto
    from Cons.prems have f: "name p \<notin> sent" "distinct (map name ps)"
      "name ` set ps \<inter> insert (name p) sent = {}"
      by auto
    from m have "n - length (acc @ [p]) = m" by simp
    with Cons.IH [OF f(2,3), of "acc @ [p]"] True f(1) m show ?thesis by simp
  next
    case False
    then show ?thesis by simp
  qed
qed

lemma length_CYCLE_ORDER: "length CYCLE_ORDER = 4"
  by (simp add: CYCLE_ORDER_def)

lemma CYCLE_ORDER_set: "T \<in> set CYCLE_ORDER"
  by (cases T) (simp_all add: CYCLE_ORDER_def)

lemma distinct_type:
  assumes "distinct (map name (pricedCatalog cat))"
  shows "distinct (map name (mainAuctionPlayers cat T))"
  using assms by (cases T) (simp_all add: pricedCatalog_def CYCLE_ORDER_def)

lemma disjoint_types:
  assumes "distinct (map name (pricedCatalog cat))" "T \<noteq> T'"
  shows "name ` set (mainAuctionPlayers cat T) \<inter> name ` set (mainAuctionPlayers cat T') = {}"
  using assms by (cases T; cases T') (auto simp: pricedCatalog_def CYCLE_ORDER_def)

lemma next_batch_ok:
  assumes D: "distinct (map name (pricedCatalog cat))" and ok: "dispatchOk cat (batchState r)"
  shows "batchState (snd (next_batch cat now r)) = advanced cat (batchState r)"
    and "fst (next_batch cat now r) =
      (if servedBatch cat (batchState r) = []
          \<and> allTypesExhausted cat (typePointers (batchState r))
       then AuctionComplete
       else Batch (servedBatch cat (batchState r))
              (CYCLE_ORDER ! currentCycleIndex (batchState r))
              (CYCLE_ORDER ! currentCycleIndex (advanced cat (batchState r)))
              (BATCH_CONFIG (CYCLE_ORDER ! currentCycleIndex (batchState r)))
              (card (sentPlayers (advanced cat (batchState r)))))"
proof -
  let ?bs = "batchState r"
  let ?T = "CYCLE_ORDER ! currentCycleIndex ?bs"
  let ?ps = "drop (typePointers ?bs ?T) (mainAuctionPlayers cat ?T)"
  have d: "distinct (map name ?ps)"
    using distinct_type [OF D, of ?T] by (simp add: drop_map [symmetric])
  have f: "name ` set ?ps \<inter> sentPlayers ?bs = {}"
    using ok by (simp add: dispatchOk_def remaining_def)
  have sc: "scanBatch (BATCH_CONFIG ?T) ?ps [] (sentPlayers ?bs)
      = (servedBatch cat ?bs, sentPlayers ?bs \<union> name ` set (servedBatch cat ?bs))"
    using scanBatch_fresh [OF d f, of "BATCH_CONFIG ?T" "[]"]
    by (simp add: servedBatch_def remaining_def)
  have same: "(typePointers ?bs)(?T := typePointers ?bs ?T) = typePointers ?bs"
    by simp
  show "batchState (snd (next_batch cat now r)) = advanced cat (batchState r)"
    unfolding next_batch_def Let_def sc advanced_def by (simp add: same)
  show "fst (next_batch cat now r) =
      (if servedBatch cat (batchState r) = []
          \<and> allTypesExhausted cat (typePointers (batchState r))
       then AuctionComplete
       else Batch (servedBatch cat (batchState r))
              (CYCLE_ORDER ! currentCycleIndex (batchState r))
              (CYCLE_ORDER ! currentCycleIndex (advanced cat (batchState r)))
              (BATCH_CONFIG (CYCLE_ORDER ! currentCycleIndex (batchState r)))
              (card (sentPlayers (advanced cat (batchState r)))))"
    unfolding next_batch_def Let_def sc advanced_def by (auto simp: same)
qed

lemma names_take_drop:
  assumes "distinct (map name ps)"
  shows "name ` set (drop n ps) \<inter> name ` set (take n ps) = {}"
proof -
  from assms have "distinct (take n (map name ps) @ drop n (map name ps))" by simp
  then have "set (take n (map name ps)) \<inter> set (drop n (map name ps)) = {}"
    unfolding distinct_append by blast
  then show ?thesis by (auto simp: take_map drop_map)
qed

lemma dispatchOk_advanced:
  assumes D: "distinct (map name (pricedCatalog cat))" and ok: "dispatchOk cat bs"
  shows "dispatchOk cat (advanced cat bs)"
proof -
  let ?T = "CYCLE_ORDER ! currentCycleIndex bs"
  let ?L = "mainAuctionPlayers cat"
  let ?b = "servedBatch cat bs"
  let ?k = "typePointers bs ?T"
  have b: "?b = take (BATCH_CONFIG ?T) (drop ?k (?L ?T))"
    by (simp add: servedBatch_def remaining_def)
  have idx: "currentCycleIndex (advanced cat bs) < length CYCLE_ORDER"
    using ok by (simp add: advanced_def Let_def dispatchOk_def length_CYCLE_ORDER)
  have le: "typePointers (advanced cat bs) T' \<le> length (?L T')" for T'
  proof -
    from ok have "typePointers bs T' \<le> length (?L T')" "?k \<le> length (?L ?T)"
      by (simp_all add: dispatchOk_def)
    then show ?thesis by (auto simp: advanced_def Let_def b min_def)
  qed
  have dis: "name ` set (remaining cat (advanced cat bs) T') \<inter> sentPlayers (advanced cat bs) = {}"
    for T'
  proof (cases "T' = ?T")
    case True
    have r: "remaining cat (advanced cat bs) ?T = drop (length ?b) (drop ?k (?L ?T))"
      by (simp add: remaining_def advanced_def Let_def add.commute)
    have "set (drop (length ?b) (drop ?k (?L ?T))) \<subseteq> set (drop ?k (?L ?T))"
      by (rule set_drop_subset)
    with ok have 1: "name ` set (drop (length ?b) (drop ?k (?L ?T))) \<inter> sentPlayers bs = {}"
      unfolding dispatchOk_def remaining_def by blast
    have "distinct (map name (drop ?k (?L ?T)))"
      using distinct_type [OF D, of ?T] by (simp add: drop_map [symmetric])
    from names_take_drop [OF this, of "length ?b"]
    have "name ` set (drop (length ?b) (drop ?k (?L ?T)))
            \<inter> name ` set (take (length ?b) (drop ?k (?L ?T))) = {}" .
    moreover have "take (length ?b) (drop ?k (?L ?T)) = ?b"
      unfolding b by (metis append_eq_conv_conj append_take_drop_id)
    ultimately have 2: "name ` set (drop (length ?b) (drop ?k (?L ?T))) \<inter> name ` set ?b = {}"
      by simp
    from 1 2 show ?thesis
      unfolding True r by (auto simp: advanced_def Let_def)
  next
    case False
    then have r: "remaining cat (advanced cat bs) T' = remaining cat bs T'"
      by (simp add: remaining_def advanced_def Let_def)
    have "set (remaining cat bs T') \<subseteq> set (?L T')" "set ?b \<subseteq> set (?L ?T)"
      unfolding remaining_def b
      by (auto dest: in_set_dropD in_set_takeD)
    with disjoint_types [OF D False] have "name ` set (remaining cat bs T') \<inter> name ` set ?b = {}"
      by blast
    moreover from ok have "name ` set (remaining cat bs T') \<inter> sentPlayers bs = {}"
      by (simp add: dispatchOk_def)
    ultimately show ?thesis
      unfolding r by (auto simp: advanced_def Let_def)
  qed
  from idx le dis show ?thesis unfolding dispatchOk_def by blast
qed

lemma distinct_CYCLE_ORDER: "distinct CYCLE_ORDER"
  by (simp add: CYCLE_ORDER_def)

lemma nth_notin_later:
  assumes "distinct xs" "i < length xs"
  shows "xs ! i \<notin> set (drop (Suc i) xs)"
proof
  assume "xs ! i \<in> set (drop (Suc i) xs)"
  then obtain k where k: "k < length (drop (Suc i) xs)" "drop (Suc i) xs ! k = xs ! i"
    by (auto simp: in_set_conv_nth)
  then have "xs ! (Suc i + k) = xs ! i" "Suc i + k < length xs" by auto
  with assms show False by (auto simp: nth_eq_iff_index_eq)
qed

lemma requestUntilComplete_step:
  assumes D: "distinct (map name (pricedCatalog cat))" and ok: "dispatchOk cat (batchState r)"
  shows "requestUntilComplete cat now (Suc n) r =
     (if servedBatch cat (batchState r) = []
          \<and> allTypesExhausted cat (typePointers (batchState r))
      then Some []
      else map_option
             ((#) (CYCLE_ORDER ! currentCycleIndex (batchState r), servedBatch cat (batchState r)))
             (requestUntilComplete cat now n (snd (next_batch cat now r))))"
proof -
  obtain resp r' where nb: "next_batch cat now r = (resp, r')" by (cases "next_batch cat now r")
  from next_batch_ok(2) [OF D ok, of now] nb have
    "resp = (if servedBatch cat (batchState r) = []
          \<and> allTypesExhausted cat (typePointers (batchState r))
       then AuctionComplete
       else Batch (servedBatch cat (batchState r))
              (CYCLE_ORDER ! currentCycleIndex (batchState r))
              (CYCLE_ORDER ! currentCycleIndex (advanced cat (batchState r)))
              (BATCH_CONFIG (CYCLE_ORDER ! currentCycleIndex (batchState r)))
              (card (sentPlayers (advanced cat (batchState r)))))"
    by simp
  then show ?thesis by (simp add: nb)
qed

lemma exhausted_remaining:
  "allTypesExhausted cat (typePointers bs) \<Longrightarrow> remaining cat bs T = []"
  using CYCLE_ORDER_set [of T] by (simp add: allTypesExhausted_def remaining_def list_all_iff)

lemma BATCH_CONFIG_pos: "0 < BATCH_CONFIG T"
  by (cases T) simp_all

lemma servedBatch_Nil:
  "servedBatch cat bs = [] \<longleftrightarrow> remaining cat bs (CYCLE_ORDER ! currentCycleIndex bs) = []"
  using BATCH_CONFIG_pos [of "CYCLE_ORDER ! currentCycleIndex bs"]
  by (auto simp: servedBatch_def take_eq_Nil)

lemma allTypesExhausted_iff:
  "allTypesExhausted cat ptrs \<longleftrightarrow> (\<forall>T. length (mainAuctionPlayers cat T) \<le> ptrs T)"
  using CYCLE_ORDER_set by (auto simp: allTypesExhausted_def list_all_iff)

lemma dispatch_exhaustive:
  assumes D: "distinct (map name (pricedCatalog cat))"
  shows "phase cat (batchState r) \<Longrightarrow>
     \<exists>n bss. requestUntilComplete cat now n r = Some bss
        \<and> concat (map snd bss) = toServe cat (batchState r) \<and> wellServed cat bss"
proof (induction "callsLeft cat (batchState r)" arbitrary: r rule: less_induct)
  case less
  let ?L = "mainAuctionPlayers cat"
  let ?bs = "batchState r"
  let ?i = "currentCycleIndex ?bs"
  let ?T = "CYCLE_ORDER ! ?i"
  let ?b = "servedBatch cat ?bs"
  let ?r' = "snd (next_batch cat now r)"
  let ?bs' = "batchState ?r'"
  let ?k = "typePointers ?bs ?T"
  let ?later = "drop (Suc ?i) CYCLE_ORDER"
  from less.prems have ok: "dispatchOk cat ?bs"
    and ex: "\<And>j. j < ?i \<Longrightarrow> typePointers ?bs (CYCLE_ORDER ! j) = length (?L (CYCLE_ORDER ! j))"
    by (simp_all add: phase_def)
  from ok have i4: "?i < length CYCLE_ORDER" and kle: "?k \<le> length (?L ?T)"
    by (simp_all add: dispatchOk_def)
  have bs': "?bs' = advanced cat ?bs" by (rule next_batch_ok(1) [OF D ok])
  have ok': "dispatchOk cat ?bs'" unfolding bs' by (rule dispatchOk_advanced [OF D ok])
  have dropi: "drop ?i CYCLE_ORDER = ?T # ?later" by (rule Cons_nth_drop_Suc [OF i4, symmetric])
  have b_def: "?b = take (BATCH_CONFIG ?T) (remaining cat ?bs ?T)" by (simp add: servedBatch_def)
  have rem_T: "remaining cat ?bs ?T = drop ?k (?L ?T)" by (simp add: remaining_def)
  have b_ok: "set ?b \<subseteq> set (?L ?T)" "length ?b \<le> BATCH_CONFIG ?T"
    unfolding b_def rem_T by (auto dest: in_set_takeD in_set_dropD)
  have ptr': "typePointers ?bs' = (typePointers ?bs)(?T := ?k + length ?b)"
    unfolding bs' by (simp add: advanced_def Let_def)
  have notlater: "?T \<notin> set ?later" by (rule nth_notin_later [OF distinct_CYCLE_ORDER i4])
  have rem_later: "map (remaining cat ?bs') ?later = map (remaining cat ?bs) ?later"
    using notlater by (intro map_cong) (auto simp: remaining_def ptr')
  have earlier: "typePointers ?bs' (CYCLE_ORDER ! j) = length (?L (CYCLE_ORDER ! j))" if "j < ?i" for j
  proof -
    from that i4 have "CYCLE_ORDER ! j \<noteq> ?T"
      using distinct_CYCLE_ORDER by (simp add: nth_eq_iff_index_eq)
    with ex [OF that] show ?thesis by (simp add: ptr')
  qed
  have ts: "toServe cat ?bs = remaining cat ?bs ?T @ concat (map (remaining cat ?bs) ?later)"
    by (simp add: toServe_def dropi)
  have cl: "callsLeft cat ?bs
      = Suc (length (remaining cat ?bs ?T))
        + sum_list (map (\<lambda>T. Suc (length (remaining cat ?bs T))) ?later)"
    by (simp add: callsLeft_def dropi)
  have cl_later: "sum_list (map (\<lambda>T. Suc (length (remaining cat ?bs' T))) ?later)
      = sum_list (map (\<lambda>T. Suc (length (remaining cat ?bs T))) ?later)"
    using notlater by (intro arg_cong [where f = sum_list] map_cong) (auto simp: remaining_def ptr')
  show ?case
  proof (cases "?b = [] \<and> allTypesExhausted cat (typePointers ?bs)")
    case True
    then have "requestUntilComplete cat now (Suc 0) r = Some []"
      by (simp add: requestUntilComplete_step [OF D ok] del: requestUntilComplete.simps)
    moreover from True have "toServe cat ?bs = []"
      by (simp add: toServe_def exhausted_remaining)
    ultimately show ?thesis
      by (intro exI [of _ "Suc 0"] exI [of _ "[]"]) (simp add: wellServed_def)
  next
    case False
    then have step: "requestUntilComplete cat now (Suc n) r
        = map_option ((#) (?T, ?b)) (requestUntilComplete cat now n ?r')" for n
      unfolding requestUntilComplete_step [OF D ok] by auto
    show ?thesis
    proof (cases "?b \<noteq> [] \<and> ?k + length ?b < length (?L ?T)")
      case True
      then have idx': "currentCycleIndex ?bs' = ?i"
        unfolding bs' by (simp add: advanced_def Let_def)
      have ph': "phase cat ?bs'"
        using ok' earlier by (simp add: phase_def idx')
      have rT: "remaining cat ?bs' ?T = drop (length ?b) (remaining cat ?bs ?T)"
        by (simp add: remaining_def ptr' add.commute)
      have bd: "?b @ drop (length ?b) (remaining cat ?bs ?T) = remaining cat ?bs ?T"
        unfolding b_def by (metis append_eq_conv_conj append_take_drop_id)
      have "toServe cat ?bs' = drop (length ?b) (remaining cat ?bs ?T)
              @ concat (map (remaining cat ?bs) ?later)"
        by (simp add: toServe_def idx' dropi rT rem_later)
      with ts bd have ts': "toServe cat ?bs = ?b @ toServe cat ?bs'" by simp
      from True have "0 < length ?b" "?k + length ?b < length (?L ?T)" by simp_all
      then have "length (remaining cat ?bs' ?T) < length (remaining cat ?bs ?T)"
        unfolding rT rem_T length_drop by linarith
      moreover have "callsLeft cat ?bs'
          = Suc (length (remaining cat ?bs' ?T))
            + sum_list (map (\<lambda>T. Suc (length (remaining cat ?bs T))) ?later)"
        by (simp add: callsLeft_def idx' dropi cl_later)
      ultimately have mu: "callsLeft cat ?bs' < callsLeft cat ?bs" using cl by simp
      from less.hyps [OF mu ph'] obtain n bss where
        IH: "requestUntilComplete cat now n ?r' = Some bss"
          "concat (map snd bss) = toServe cat ?bs'" "wellServed cat bss"
        by blast
      show ?thesis
        using IH b_ok
        by (intro exI [of _ "Suc n"] exI [of _ "(?T, ?b) # bss"])
          (simp add: step ts' wellServed_def del: requestUntilComplete.simps)
    next
      case moved: False
      have full: "?k + length ?b = length (?L ?T)"
      proof (cases "?b = []")
        case True
        then have "remaining cat ?bs ?T = []" by (simp add: servedBatch_Nil)
        with kle True show ?thesis by (simp add: rem_T)
      next
        case False
        with moved have "length (?L ?T) \<le> ?k + length ?b" by simp
        moreover have "length ?b \<le> length (?L ?T) - ?k" unfolding b_def rem_T by simp
        ultimately show ?thesis using kle by simp
      qed
      have ball: "?b = remaining cat ?bs ?T"
      proof -
        from full have "length ?b = length (remaining cat ?bs ?T)" by (simp add: rem_T)
        then show ?thesis unfolding b_def by (metis take_all_iff length_take min.absorb_iff1 order_refl take_all)
      qed
      have idx': "currentCycleIndex ?bs' = Suc ?i mod length CYCLE_ORDER"
        unfolding bs' using moved full by (auto simp: advanced_def Let_def)
      show ?thesis
      proof (cases "Suc ?i < length CYCLE_ORDER")
        case True
        then have idx'': "currentCycleIndex ?bs' = Suc ?i" by (simp add: idx')
        have ph': "phase cat ?bs'"
          unfolding phase_def idx''
        proof (intro conjI allI impI ok')
          fix j assume "j < Suc ?i"
          then consider "j < ?i" | "j = ?i" by linarith
          then show "typePointers ?bs' (CYCLE_ORDER ! j) = length (?L (CYCLE_ORDER ! j))"
          proof cases
            case 1
            then show ?thesis by (rule earlier)
          next
            case 2
            then show ?thesis by (simp add: ptr' full)
          qed
        qed
        have "toServe cat ?bs' = concat (map (remaining cat ?bs) ?later)"
          by (simp add: toServe_def idx'' rem_later)
        with ts ball have ts': "toServe cat ?bs = ?b @ toServe cat ?bs'" by simp
        have "callsLeft cat ?bs'
            = sum_list (map (\<lambda>T. Suc (length (remaining cat ?bs T))) ?later)"
          by (simp add: callsLeft_def idx'' cl_later)
        with cl have mu: "callsLeft cat ?bs' < callsLeft cat ?bs" by simp
        from less.hyps [OF mu ph'] obtain n bss where
          IH: "requestUntilComplete cat now n ?r' = Some bss"
            "concat (map snd bss) = toServe cat ?bs'" "wellServed cat bss"
          by blast
        show ?thesis
          using IH b_ok
          by (intro exI [of _ "Suc n"] exI [of _ "(?T, ?b) # bss"])
            (simp add: step ts' wellServed_def del: requestUntilComplete.simps)
      next
        case last: False
        with i4 have i3: "Suc ?i = length CYCLE_ORDER" by simp
        have all': "allTypesExhausted cat (typePointers ?bs')"
          unfolding allTypesExhausted_iff
        proof
          fix T'
          from CYCLE_ORDER_set [of T'] obtain j where j: "j < length CYCLE_ORDER" "CYCLE_ORDER ! j = T'"
            by (auto simp: in_set_conv_nth)
          with i3 consider "j < ?i" | "j = ?i" by linarith
          then show "length (?L T') \<le> typePointers ?bs' T'"
          proof cases
            case 1
            from earlier [OF 1] j(2) show ?thesis by simp
          next
            case 2
            with j(2) show ?thesis by (auto simp: ptr' full)
          qed
        qed
        have "?b \<noteq> []"
        proof
          assume e: "?b = []"
          with ptr' have "typePointers ?bs' = typePointers ?bs" by simp
          with all' e False show False by simp
        qed
        have "servedBatch cat ?bs' = []"
          by (simp add: servedBatch_Nil exhausted_remaining [OF all'])
        with all' have "requestUntilComplete cat now (Suc 0) ?r' = Some []"
          by (simp add: requestUntilComplete_step [OF D ok'] del: requestUntilComplete.simps)
        then have 2: "requestUntilComplete cat now (Suc (Suc 0)) r = Some [(?T, ?b)]"
          by (simp add: step del: requestUntilComplete.simps)
        from i3 have "?later = []" by simp
        then have "toServe cat ?bs = ?b" by (simp add: ts ball [symmetric])
        with 2 b_ok show ?thesis
          by (intro exI [of _ "Suc (Suc 0)"] exI [of _ "[(?T, ?b)]"]) (simp add: wellServed_def)
      qed
    qed
  qed
qed

lemma type_name_inj [simp]: "type_name T = type_name T' \<longleftrightarrow> T = T'"
  by (cases T; cases T') simp_all

lemma mainAuctionPlayers_set:
  "p \<in> set (mainAuctionPlayers cat T) \<Longrightarrow> ptype p = type_name T \<and> basePrice p \<noteq> None"
  by (simp add: mainAuctionPlayers_def playersWithBase_def)

lemma mainAuctionPlayers_sorted: "sorted (map descBase (mainAuctionPlayers cat T))"
  by (simp add: mainAuctionPlayers_def)

lemma filter_type_main:
  "filter (\<lambda>p. ptype p = type_name T) (mainAuctionPlayers cat T')
     = (if T' = T then mainAuctionPlayers cat T else [])"
proof (cases "T' = T")
  case True
  then show ?thesis by (simp add: filter_id_conv mainAuctionPlayers_set)
next
  case False
  then have "\<forall>p \<in> set (mainAuctionPlayers cat T'). ptype p \<noteq> type_name T"
    by (auto dest: mainAuctionPlayers_set)
  with False show ?thesis by (simp add: filter_empty_conv)
qed

lemma filter_type_catalog:
  "filter (\<lambda>p. ptype p = type_name T) (pricedCatalog cat) = mainAuctionPlayers cat T"
proof -
  have "filter (\<lambda>p. ptype p = type_name T) (pricedCatalog cat)
      = concat (map (\<lambda>T'. if T' = T then mainAuctionPlayers cat T else []) CYCLE_ORDER)"
    by (simp add: pricedCatalog_def filter_concat comp_def filter_type_main)
  also have "\<dots> = mainAuctionPlayers cat T"
    by (cases T) (simp_all add: CYCLE_ORDER_def)
  finally show ?thesis .
qed

lemma phase_new: "phase cat newBatchState"
  by (simp add: phase_def dispatchOk_def newBatchState_def length_CYCLE_ORDER)

lemma toServe_new: "toServe cat newBatchState = pricedCatalog cat"
  by (simp add: toServe_def pricedCatalog_def remaining_def newBatchState_def cong: map_cong)

text \<open>
  C3. The name of a player is the key of the catalog, so the priced players have pairwise
  distinct names. For such a catalog and a room whose dispatch begins, some number of
  consecutive requests for the next batch ends with the answer that the auction is
  complete; the batches returned before it, concatenated, are the priced catalog: the four
  lists in the order of the cycle, so every priced player is in exactly one batch; a batch
  holds at most the configured number of players, all of the type served; and the players
  of one type come in the order of that type's list, which is sorted by descending base
  price.
\<close>

theorem batch_dispatch_exhaustive:
  assumes "distinct (map name (pricedCatalog cat))" "batchState r = newBatchState"
  shows "\<exists>n bss. requestUntilComplete cat now n r = Some bss
    \<and> concat (map snd bss) = pricedCatalog cat
    \<and> (\<forall>(T, ps) \<in> set bss. length ps \<le> BATCH_CONFIG T
          \<and> (\<forall>p \<in> set ps. ptype p = type_name T \<and> basePrice p \<noteq> None))
    \<and> (\<forall>T. filter (\<lambda>p. ptype p = type_name T) (concat (map snd bss)) = mainAuctionPlayers cat T
          \<and> sorted (map descBase (mainAuctionPlayers cat T)))"
proof -
  from assms(2) have "phase cat (batchState r)" by (simp add: phase_new)
  from dispatch_exhaustive [OF assms(1) this, of now] obtain n bss where
    r: "requestUntilComplete cat now n r = Some bss"
      "concat (map snd bss) = pricedCatalog cat" "wellServed cat bss"
    by (auto simp: assms(2) toServe_new)
  from r(3) have "\<forall>(T, ps) \<in> set bss. length ps \<le> BATCH_CONFIG T
          \<and> (\<forall>p \<in> set ps. ptype p = type_name T \<and> basePrice p \<noteq> None)"
    unfolding wellServed_def by (fastforce dest: mainAuctionPlayers_set)
  with r(1,2) show ?thesis
    by (intro exI [of _ n] exI [of _ bss])
      (simp add: filter_type_catalog mainAuctionPlayers_sorted)
qed

lemma demoCatalog_lists:
  "mainAuctionPlayers demoCatalog BAT =
     [\<lparr>name = ''B2'', team = ''Y'', ptype = ''BAT'', basePrice = Some 50\<rparr>,
      \<lparr>name = ''B1'', team = ''X'', ptype = ''BAT'', basePrice = Some 30\<rparr>]"
  "mainAuctionPlayers demoCatalog AR =
     [\<lparr>name = ''A1'', team = ''X'', ptype = ''AR'', basePrice = Some 20\<rparr>]"
  "mainAuctionPlayers demoCatalog BOWL = []"
  "mainAuctionPlayers demoCatalog WK =
     [\<lparr>name = ''W1'', team = ''Y'', ptype = ''WK'', basePrice = Some 10\<rparr>]"
  by (simp_all add: mainAuctionPlayers_def playersWithBase_def demoCatalog_def descBase_def)

lemma demoCatalog_distinct: "distinct (map name (pricedCatalog demoCatalog))"
  by (simp add: pricedCatalog_def CYCLE_ORDER_def demoCatalog_lists)

lemma demo_call1:
  "next_batch demoCatalog 0 demoRoom =
     (Batch (mainAuctionPlayers demoCatalog BAT) BAT AR 8 2,
      dispatching (Suc 0) {''B2'', ''B1''} ((\<lambda>T. 0)(BAT := Suc (Suc 0))))"
  by (simp add: next_batch_def Let_def demoRoom_def newBatchState_def dispatching_def
      CYCLE_ORDER_def demoCatalog_lists allTypesExhausted_def insert_commute)

lemma demo_call2:
  "next_batch demoCatalog 0 (dispatching (Suc 0) {''B2'', ''B1''} ((\<lambda>T. 0)(BAT := Suc (Suc 0)))) =
     (Batch (mainAuctionPlayers demoCatalog AR) AR BOWL 5 3,
      dispatching (Suc (Suc 0)) {''B2'', ''B1'', ''A1''}
        ((\<lambda>T. 0)(BAT := Suc (Suc 0), AR := Suc 0)))"
  by (simp add: next_batch_def Let_def demoRoom_def dispatching_def
      CYCLE_ORDER_def demoCatalog_lists allTypesExhausted_def insert_commute)

lemma demo_call3:
  "next_batch demoCatalog 0
     (dispatching (Suc (Suc 0)) {''B2'', ''B1'', ''A1''}
        ((\<lambda>T. 0)(BAT := Suc (Suc 0), AR := Suc 0))) =
     (Batch [] BOWL WK 8 3,
      dispatching (Suc (Suc (Suc 0))) {''B2'', ''B1'', ''A1''}
        ((\<lambda>T. 0)(BAT := Suc (Suc 0), AR := Suc 0, BOWL := 0)))"
  by (simp add: next_batch_def Let_def demoRoom_def dispatching_def
      CYCLE_ORDER_def demoCatalog_lists allTypesExhausted_def insert_commute)

lemma demo_call4:
  "next_batch demoCatalog 0
     (dispatching (Suc (Suc (Suc 0))) {''B2'', ''B1'', ''A1''}
        ((\<lambda>T. 0)(BAT := Suc (Suc 0), AR := Suc 0, BOWL := 0))) =
     (Batch (mainAuctionPlayers demoCatalog WK) WK BAT 5 4,
      dispatching 0 {''B2'', ''B1'', ''A1'', ''W1''}
        ((\<lambda>T. 0)(BAT := Suc (Suc 0), AR := Suc 0, BOWL := 0, WK := Suc 0)))"
  by (simp add: next_batch_def Let_def demoRoom_def dispatching_def
      CYCLE_ORDER_def demoCatalog_lists allTypesExhausted_def insert_commute)

lemma demo_call5:
  "fst (next_batch demoCatalog 0
     (dispatching 0 {''B2'', ''B1'', ''A1'', ''W1''}
        ((\<lambda>T. 0)(BAT := Suc (Suc 0), AR := Suc 0, BOWL := 0, WK := Suc 0))))
     = AuctionComplete"
  by (simp add: next_batch_def Let_def demoRoom_def dispatching_def
      CYCLE_ORDER_def demoCatalog_lists allTypesExhausted_def)

lemma requestUntilComplete_done:
  "fst (next_batch cat now r) = AuctionComplete \<Longrightarrow> requestUntilComplete cat now (Suc n) r = Some []"
  by (cases "next_batch cat now r") simp

lemma demo_batches:
  "requestUntilComplete demoCatalog 0 5 demoRoom =
     Some [(BAT, mainAuctionPlayers demoCatalog BAT), (AR, mainAuctionPlayers demoCatalog AR),
           (BOWL, []), (WK, mainAuctionPlayers demoCatalog WK)]"
proof -
  have e: "(5::nat) = Suc (Suc (Suc (Suc (Suc 0))))" by simp
  note last = requestUntilComplete_done [OF demo_call5, of 0]
  have 4: "requestUntilComplete demoCatalog 0 (Suc (Suc 0))
     (dispatching (Suc (Suc (Suc 0))) {''B2'', ''B1'', ''A1''}
        ((\<lambda>T. 0)(BAT := Suc (Suc 0), AR := Suc 0, BOWL := 0)))
     = Some [(WK, mainAuctionPlayers demoCatalog WK)]"
    unfolding requestUntilComplete.simps(2) [of _ _ "Suc 0"] demo_call4
    by (simp only: prod.case batch_response.case last option.map)
  have 3: "requestUntilComplete demoCatalog 0 (Suc (Suc (Suc 0)))
     (dispatching (Suc (Suc 0)) {''B2'', ''B1'', ''A1''}
        ((\<lambda>T. 0)(BAT := Suc (Suc 0), AR := Suc 0)))
     = Some [(BOWL, []), (WK, mainAuctionPlayers demoCatalog WK)]"
    unfolding requestUntilComplete.simps(2) [of _ _ "Suc (Suc 0)"] demo_call3
    by (simp only: prod.case batch_response.case 4 option.map)
  have 2: "requestUntilComplete demoCatalog 0 (Suc (Suc (Suc (Suc 0))))
     (dispatching (Suc 0) {''B2'', ''B1''} ((\<lambda>T. 0)(BAT := Suc (Suc 0))))
     = Some [(AR, mainAuctionPlayers demoCatalog AR), (BOWL, []),
             (WK, mainAuctionPlayers demoCatalog WK)]"
    unfolding requestUntilComplete.simps(2) [of _ _ "Suc (Suc (Suc 0))"] demo_call2
    by (simp only: prod.case batch_response.case 3 option.map)
  show ?thesis
    unfolding e requestUntilComplete.simps(2) [of _ _ "Suc (Suc (Suc (Suc 0)))"] demo_call1
    by (simp only: prod.case batch_response.case 2 option.map)
qed

theorem batch_dispatch_exhaustive_witness:
  "distinct (map name (pricedCatalog demoCatalog)) \<and> batchState demoRoom = newBatchState
   \<and> requestUntilComplete demoCatalog 0 5 demoRoom =
       Some [(BAT, [\<lparr>name = ''B2'', team = ''Y'', ptype = ''BAT'', basePrice = Some 50\<rparr>,
                    \<lparr>name = ''B1'', team = ''X'', ptype = ''BAT'', basePrice = Some 30\<rparr>]),
             (AR, [\<lparr>name = ''A1'', team = ''X'', ptype = ''AR'', basePrice = Some 20\<rparr>]),
             (BOWL, []),
             (WK, [\<lparr>name = ''W1'', team = ''Y'', ptype = ''WK'', basePrice = Some 10\<rparr>])]
   \<and> (\<exists>n bss. requestUntilComplete demoCatalog 0 n demoRoom = Some bss
          \<and> concat (map snd bss) = pricedCatalog demoCatalog)"
proof -
  have b: "batchState demoRoom = newBatchState" by (simp add: demoRoom_def)
  from batch_dispatch_exhaustive [OF demoCatalog_distinct b, of 0]
  have x: "\<exists>n bss. requestUntilComplete demoCatalog 0 n demoRoom = Some bss
          \<and> concat (map snd bss) = pricedCatalog demoCatalog"
    by blast
  have r: "requestUntilComplete demoCatalog 0 5 demoRoom =
       Some [(BAT, [\<lparr>name = ''B2'', team = ''Y'', ptype = ''BAT'', basePrice = Some 50\<rparr>,
                    \<lparr>name = ''B1'', team = ''X'', ptype = ''BAT'', basePrice = Some 30\<rparr>]),
             (AR, [\<lparr>name = ''A1'', team = ''X'', ptype = ''AR'', basePrice = Some 20\<rparr>]),
             (BOWL, []),
             (WK, [\<lparr>name = ''W1'', team = ''Y'', ptype = ''WK'', basePrice = Some 10\<rparr>])]"
    unfolding demo_batches by (simp only: demoCatalog_lists)
  from demoCatalog_distinct b r x show ?thesis by (intro conjI)
qed

lemma dupCat_lists:
  "mainAuctionPlayers dupCat BAT =
     [\<lparr>name = ''X'', team = ''X'', ptype = ''BAT'', basePrice = Some 10\<rparr>,
      \<lparr>name = ''X'', team = ''Y'', ptype = ''BAT'', basePrice = Some 5\<rparr>]"
  "mainAuctionPlayers dupCat AR = []"
  "mainAuctionPlayers dupCat BOWL = []"
  "mainAuctionPlayers dupCat WK = []"
  by (simp_all add: mainAuctionPlayers_def playersWithBase_def dupCat_def descBase_def)

lemma dupStuck_eq:
  "dupStuck = demoRoom
     \<lparr>batchState := \<lparr>currentCycleIndex = 0, sentPlayers = {''X''},
                      typePointers = (\<lambda>T. 0)(BAT := 1)\<rparr>,
      lastActivity := 0\<rparr>"
  "fst (next_batch dupCat 0 demoRoom) =
     Batch [\<lparr>name = ''X'', team = ''X'', ptype = ''BAT'', basePrice = Some 10\<rparr>] BAT BAT 8 1"
  by (simp_all add: dupStuck_def next_batch_def Let_def demoRoom_def newBatchState_def
      CYCLE_ORDER_def dupCat_lists allTypesExhausted_def)

lemma stuck_step:
  assumes "i < 4"
  shows "next_batch dupCat 0 (stuckAt i)
     = (Batch [] (CYCLE_ORDER ! i) (CYCLE_ORDER ! (Suc i mod 4)) (BATCH_CONFIG (CYCLE_ORDER ! i)) 1,
        stuckAt (Suc i mod 4))"
proof -
  from assms consider "i = 0" | "i = 1" | "i = 2" | "i = 3" by linarith
  then show ?thesis
    by cases
      (simp_all add: stuckAt_def next_batch_def Let_def demoRoom_def CYCLE_ORDER_def
        dupCat_lists allTypesExhausted_def fun_upd_idem)
qed

lemma stuck_forever: "i < 4 \<Longrightarrow> requestUntilComplete dupCat 0 n (stuckAt i) = None"
proof (induction n arbitrary: i)
  case 0
  then show ?case by simp
next
  case (Suc n)
  have "Suc i mod 4 < 4" by simp
  from Suc.IH [OF this] show ?case by (simp add: stuck_step [OF Suc.prems])
qed

lemma duplicate_names_never_complete: "requestUntilComplete dupCat 0 n demoRoom = None"
proof (cases n)
  case 0
  then show ?thesis by simp
next
  case (Suc m)
  have "next_batch dupCat 0 demoRoom = (fst (next_batch dupCat 0 demoRoom), dupStuck)"
    by (simp add: dupStuck_def)
  moreover have "dupStuck = stuckAt 0" by (simp add: dupStuck_eq stuckAt_def)
  ultimately show ?thesis
    using stuck_forever [of 0 m] by (simp add: Suc dupStuck_eq(2))
qed

text \<open>
  Remark. The hypothesis on the names is the data model's, and the handler leans on it: it
  passes over a name already served, and sets the pointer to the start index plus the
  number of players collected, not past the players it has visited. On a catalog outside
  the data model, with two priced batsmen of the same name, the first request serves the
  first of them and passes over the second; after it every request returns an empty batch
  and four requests bring the room back to the state it had, so the answer that the
  auction is complete never comes.
\<close>

lemma repeated_name_stalls:
  "length (pricedCatalog dupCat) = 2
   \<and> fst (next_batch dupCat 0 demoRoom) =
       Batch [\<lparr>name = ''X'', team = ''X'', ptype = ''BAT'', basePrice = Some 10\<rparr>] BAT BAT 8 1
   \<and> fst (next_batch dupCat 0 dupStuck) = Batch [] BAT AR 8 1
   \<and> fst (next_batch dupCat 0 (run dupCat [(0, NextBatch)] dupStuck)) = Batch [] AR BOWL 5 1
   \<and> fst (next_batch dupCat 0 (run dupCat [(0, NextBatch), (0, NextBatch)] dupStuck))
       = Batch [] BOWL WK 8 1
   \<and> fst (next_batch dupCat 0 (run dupCat [(0, NextBatch), (0, NextBatch), (0, NextBatch)] dupStuck))
       = Batch [] WK BAT 5 1
   \<and> run dupCat [(0, NextBatch), (0, NextBatch), (0, NextBatch), (0, NextBatch)] dupStuck = dupStuck
   \<and> requestUntilComplete dupCat 0 100 demoRoom = None"
proof -
  have s: "dupStuck = stuckAt 0" by (simp add: dupStuck_eq stuckAt_def)
  have l: "length (pricedCatalog dupCat) = 2"
    by (simp add: pricedCatalog_def CYCLE_ORDER_def dupCat_lists)
  show ?thesis
    unfolding s
    by (simp add: l dupStuck_eq(2) stuck_step CYCLE_ORDER_def duplicate_names_never_complete)
qed


subsection \<open>A first bid opens the session\<close>

text \<open>
  C4, as the code has it. A bid on a player that has no regular session is never answered
  with "session not active". It is accepted exactly when the request passes the checks of
  team, budget, roster, catalog and sold set, meets a non-zero base price and is greater
  than zero; the room then holds a new active session for the player with that bid as its
  first bid.
\<close>

theorem place_bid_opens_session:
  assumes "map_of (currentBids r) pn = None"
  shows "fst (place_bid cat now pn amt tn r) \<noteq> Inl SessionNotActive
    \<and> (fst (place_bid cat now pn amt tn r) = Inr () \<longleftrightarrow>
         pn \<noteq> [] \<and> tn \<noteq> []
         \<and> (\<exists>t pl. map_of (users r) tn = Some t \<and> amt \<le> budget t
               \<and> length (players t) < MAX_PLAYERS_PER_TEAM
               \<and> findPlayer cat pn = Some pl \<and> pn \<notin> soldPlayers r
               \<and> (\<forall>b. basePrice pl = Some b \<longrightarrow> b = 0 \<or> b \<le> amt) \<and> 0 < amt))
    \<and> (fst (place_bid cat now pn amt tn r) = Inr () \<longrightarrow>
         (\<exists>pl. findPlayer cat pn = Some pl
            \<and> map_of (currentBids (snd (place_bid cat now pn amt tn r))) pn =
                Some ((newSession pn (ptype pl) (basePrice pl) now Regular)
                        \<lparr>bids := [\<lparr>bidderTeam = tn, amount = amt, timestamp = now\<rparr>],
                         lastBidTime := Some now\<rparr>)))"
  unfolding place_bid_None [OF assms]
  by (auto simp: update_conv' split: option.splits)

theorem place_bid_opens_session_witness:
  "map_of (currentBids demoRoom) ''P'' = None
   \<and> fst (place_bid demoCat 1 ''P'' 60000 ''A'' demoRoom) = Inr ()
   \<and> map_of (currentBids (snd (place_bid demoCat 1 ''P'' 60000 ''A'' demoRoom))) ''P'' =
       Some ((newSession ''P'' ''BAT'' (Some 50000) 1 Regular)
               \<lparr>bids := [\<lparr>bidderTeam = ''A'', amount = 60000, timestamp = 1\<rparr>],
                lastBidTime := Some 1\<rparr>)"
proof -
  have n: "map_of (currentBids demoRoom) ''P'' = None" by (simp add: demoRoom_def)
  have p: "findPlayer demoCat ''P''
            = Some \<lparr>name = ''P'', team = ''X'', ptype = ''BAT'', basePrice = Some 50000\<rparr>"
    by (simp add: demoCat_def findPlayer_def)
  have u: "map_of (users demoRoom) ''A'' = Some (newUser ''A'' 1000000)"
    "soldPlayers demoRoom = {}"
    by (simp_all add: demoRoom_def)
  from place_bid_opens_session [OF n, of demoCat 1 60000 "''A''"] p u
  have ok: "fst (place_bid demoCat 1 ''P'' 60000 ''A'' demoRoom) = Inr ()"
    by (simp add: newUser_def MAX_PLAYERS_PER_TEAM_def)
  with place_bid_opens_session [OF n, of demoCat 1 60000 "''A''"] p n show ?thesis
    by simp
qed

text \<open>
  On the fresh room, where the player has no session, the bid of 60,000 by team A is
  accepted and the room holds a session for the player afterwards.
\<close>

theorem place_bid_absent_session_counterexample:
  "map_of (currentBids demoRoom) ''P'' = None
   \<and> fst (place_bid demoCat 1 ''P'' 60000 ''A'' demoRoom) = Inr ()
   \<and> fst (place_bid demoCat 1 ''P'' 60000 ''A'' demoRoom) \<noteq> Inl SessionNotActive
   \<and> map_of (currentBids (snd (place_bid demoCat 1 ''P'' 60000 ''A'' demoRoom))) ''P'' \<noteq> None"
  by (simp add: place_bid_def demoRoom_def demoCat_def newUser_def findPlayer_def
      MAX_PLAYERS_PER_TEAM_def newSession_def currentHighestBid_def)

subsection \<open>The rule of resolution\<close>

lemma demoBidding_eq:
  "demoBidding = demoRoom\<lparr>currentBids := [(''P'', demoSession)], lastActivity := 2\<rparr>"
  by (simp add: demoBidding_def place_bid_def demoRoom_def demoCat_def newUser_def
      findPlayer_def MAX_PLAYERS_PER_TEAM_def newSession_def currentHighestBid_def
      demoSession_def)

lemma demoBidding_reachable: "reachable demoCat demoBidding"
  unfolding demoBidding_def by (intro reachable.stepped reachable.created [OF demo_created])

lemma demoSession_sorted:
  "sortBids (bids demoSession) =
     [\<lparr>bidderTeam = ''B'', amount = 150000, timestamp = 2\<rparr>,
      \<lparr>bidderTeam = ''A'', amount = 100000, timestamp = 1\<rparr>]"
  by (simp add: demoSession_def sortBids_def)

lemma demoSession_winner:
  "winningBid (bids demoSession) = Some \<lparr>bidderTeam = ''B'', amount = 150000, timestamp = 2\<rparr>"
  by (simp add: winningBid_def demoSession_sorted)

lemma demoOutbid_run: "run demoCat demoOutbid demoRoom = demoSpent"
  by (simp add: demoOutbid_def demoSpent_def demoOutbidSession_def place_bid_def
      select_player_def demoRoom_def demoCat_def newUser_def findPlayer_def
      MAX_PLAYERS_PER_TEAM_def newSession_def currentHighestBid_def buy_def purchase_def)

lemma demoSpent_reachable: "reachable demoCat demoSpent"
  using reachable_run [OF reachable.created [OF demo_created], of demoCat demoOutbid]
  by (simp only: demoOutbid_run)

lemma resolve_noSale:
  assumes "sessionOf k r pn = Some bd" "status bd = Active" "awardee (pool k cat) r pn bd = None"
  shows "noSale k pn now bd r (resolve cat now k pn r)"
  using resolve_active [OF assms(1,2), of cat now] assms(3)
  by (simp add: noSale_def outcome_def closedSession_def)

lemma resolve_sale:
  assumes "sessionOf k r pn = Some bd" "status bd = Active"
    "awardee (pool k cat) r pn bd = Some (w, t, pl)"
  shows "sale k pn now w t pl bd r (resolve cat now k pn r)"
  using resolve_active [OF assms(1,2), of cat now] assms(3)
  by (cases k)
    (simp_all add: sale_def outcome_def closedSession_def soldSession_def awardRecord_def
      purchase_def buy_def)

lemma first_bid_resolved:
  assumes "reachable cat r" "sessionOf k r pn = Some bd" "status bd = Active"
    and "winningBid (bids bd) = Some w"
  shows "\<exists>t pl. map_of (users r) (bidderTeam w) = Some t \<and> findPlayer (pool k cat) pn = Some pl
    \<and> (if amount w \<le> budget t \<and> length (players t) < MAX_PLAYERS_PER_TEAM
        then sale k pn now w t pl bd r (resolve cat now k pn r)
        else noSale k pn now bd r (resolve cat now k pn r))"
proof -
  from session_known [OF assms(1,2)] obtain pl where
    pl: "findPlayer (pool k cat) pn = Some pl"
    and ts: "\<forall>b \<in> set (bids bd). \<exists>t. map_of (users r) (bidderTeam b) = Some t"
    by blast
  from winningBid_max [OF assms(4)] ts obtain t where
    t: "map_of (users r) (bidderTeam w) = Some t"
    by blast
  show ?thesis
  proof (cases "amount w \<le> budget t \<and> length (players t) < MAX_PLAYERS_PER_TEAM")
    case True
    then have "awardee (pool k cat) r pn bd = Some (w, t, pl)"
      using assms(4) t pl by (simp add: awardee_def)
    from resolve_sale [OF assms(2,3) this, of now] True t pl show ?thesis by auto
  next
    case False
    then have "awardee (pool k cat) r pn bd = None"
      using assms(4) t pl by (simp add: awardee_def)
    from resolve_noSale [OF assms(2,3) this, of now] False t pl show ?thesis by auto
  qed
qed

text \<open>
  C6. For a session of either kind that is active when resolution runs, in a room reachable
  from its creation: the timer callback and the manual close both run the award function.
  Without bids the session is closed and nothing is sold. Otherwise a bid of the greatest
  amount is selected, its team and the player are known, and when the team has at least
  the amount left and fewer than fifteen players the sale is made: the amount is
  subtracted from the team's budget (exactly, when the budget is safe and the amount a
  whole number that is not negative), the record is appended to its roster, the player is
  marked sold and the session is sold to the team at that amount. In every other case the
  session is closed, and the teams and the sold set are as before: no other bid is tried.
\<close>

theorem resolution_rule:
  assumes "reachable cat r" "sessionOf k r pn = Some bd" "status bd = Active"
  shows "timerFires cat now k pn r = resolve cat now k pn r
    \<and> close_bidding cat now pn (typeParam k) r = (Inr (), resolve cat now k pn r)
    \<and> (bids bd = [] \<longrightarrow> noSale k pn now bd r (resolve cat now k pn r))
    \<and> (bids bd \<noteq> [] \<longrightarrow>
         (\<exists>w t pl. w \<in> set (bids bd) \<and> (\<forall>b \<in> set (bids bd). amount b \<le> amount w)
            \<and> map_of (users r) (bidderTeam w) = Some t
            \<and> findPlayer (pool k cat) pn = Some pl
            \<and> (if amount w \<le> budget t \<and> length (players t) < MAX_PLAYERS_PER_TEAM
                then sale k pn now w t pl bd r (resolve cat now k pn r)
                     \<and> (safe (budget t) \<and> whole (amount w) \<and> 0 \<le> amount w \<longrightarrow>
                          jsMinus (budget t) (amount w) = budget t - amount w)
                else noSale k pn now bd r (resolve cat now k pn r))))"
proof -
  from session_known [OF assms(1,2)] have k: "pn \<noteq> []" by blast
  note p = resolve_paths [OF assms(2,3) k, of cat now]
  have e: "bids bd = [] \<longrightarrow> noSale k pn now bd r (resolve cat now k pn r)"
  proof
    assume "bids bd = []"
    then have "awardee (pool k cat) r pn bd = None"
      by (simp add: awardee_def winningBid_def)
    from resolve_noSale [OF assms(2,3) this] show "noSale k pn now bd r (resolve cat now k pn r)" .
  qed
  have n: "bids bd \<noteq> [] \<longrightarrow>
         (\<exists>w t pl. w \<in> set (bids bd) \<and> (\<forall>b \<in> set (bids bd). amount b \<le> amount w)
            \<and> map_of (users r) (bidderTeam w) = Some t
            \<and> findPlayer (pool k cat) pn = Some pl
            \<and> (if amount w \<le> budget t \<and> length (players t) < MAX_PLAYERS_PER_TEAM
                then sale k pn now w t pl bd r (resolve cat now k pn r)
                     \<and> (safe (budget t) \<and> whole (amount w) \<and> 0 \<le> amount w \<longrightarrow>
                          jsMinus (budget t) (amount w) = budget t - amount w)
                else noSale k pn now bd r (resolve cat now k pn r)))"
  proof
    assume "bids bd \<noteq> []"
    then obtain w where w: "winningBid (bids bd) = Some w"
      using winningBid_None [of "bids bd"] by (cases "winningBid (bids bd)") auto
    from first_bid_resolved [OF assms w, of now] obtain t pl where
      f: "map_of (users r) (bidderTeam w) = Some t" "findPlayer (pool k cat) pn = Some pl"
      "if amount w \<le> budget t \<and> length (players t) < MAX_PLAYERS_PER_TEAM
        then sale k pn now w t pl bd r (resolve cat now k pn r)
        else noSale k pn now bd r (resolve cat now k pn r)"
      by blast
    have x: "amount w \<le> budget t \<Longrightarrow> safe (budget t) \<and> whole (amount w) \<and> 0 \<le> amount w \<longrightarrow>
                jsMinus (budget t) (amount w) = budget t - amount w"
      using jsMinus_exact(1) [of "budget t" "amount w"] by blast
    from winningBid_max [OF w] f x
    show "\<exists>w t pl. w \<in> set (bids bd) \<and> (\<forall>b \<in> set (bids bd). amount b \<le> amount w)
            \<and> map_of (users r) (bidderTeam w) = Some t
            \<and> findPlayer (pool k cat) pn = Some pl
            \<and> (if amount w \<le> budget t \<and> length (players t) < MAX_PLAYERS_PER_TEAM
                then sale k pn now w t pl bd r (resolve cat now k pn r)
                     \<and> (safe (budget t) \<and> whole (amount w) \<and> 0 \<le> amount w \<longrightarrow>
                          jsMinus (budget t) (amount w) = budget t - amount w)
                else noSale k pn now bd r (resolve cat now k pn r))"
      by (intro exI [of _ w] exI [of _ t] exI [of _ pl]) (simp split: if_splits)
  qed
  from p e n show ?thesis by (intro conjI)
qed

theorem resolution_rule_witness:
  "reachable demoCat demoBidding
   \<and> sessionOf Regular demoBidding ''P'' = Some demoSession \<and> status demoSession = Active
   \<and> bids demoSession \<noteq> []
   \<and> timerFires demoCat 3 Regular ''P'' demoBidding = resolve demoCat 3 Regular ''P'' demoBidding
   \<and> close_bidding demoCat 3 ''P'' ''regular'' demoBidding
       = (Inr (), resolve demoCat 3 Regular ''P'' demoBidding)
   \<and> users (resolve demoCat 3 Regular ''P'' demoBidding) =
       [(''A'', newUser ''A'' 1000000),
        (''B'', \<lparr>username = ''B'', budget = 850000,
                players = [\<lparr>name = ''P'', team = ''X'', ptype = ''BAT'',
                            basePrice = Some 50000, boughtPrice = 150000, boughtAt = 3,
                            awardedBy = Some ''auto_highest_bid''\<rparr>]\<rparr>)]
   \<and> soldPlayers (resolve demoCat 3 Regular ''P'' demoBidding) = {''P''}
   \<and> sessionOf Regular (resolve demoCat 3 Regular ''P'' demoBidding) ''P'' =
       Some \<lparr>playerName = ''P'', playerType = ''BAT'', sessionBasePrice = Some 50000,
             bids = [\<lparr>bidderTeam = ''B'', amount = 150000, timestamp = 2\<rparr>,
                     \<lparr>bidderTeam = ''A'', amount = 100000, timestamp = 1\<rparr>],
             biddingStartTime = 1, status = Sold, biddingType = Regular, lastBidTime = Some 2,
             closedAt = Some 3, soldTo = Some ''B'', finalPrice = Some 150000,
             soldAt = Some 3\<rparr>
   \<and> reachable demoCat demoSpent
   \<and> sessionOf Regular demoSpent ''P'' = Some demoOutbidSession
   \<and> status demoOutbidSession = Active \<and> bids demoOutbidSession \<noteq> []
   \<and> map_option budget (map_of (users demoSpent) ''A'') = Some 100000
   \<and> users (resolve demoCat 4 Regular ''P'' demoSpent) = users demoSpent
   \<and> soldPlayers (resolve demoCat 4 Regular ''P'' demoSpent) = {''Q''}
   \<and> sessionOf Regular (resolve demoCat 4 Regular ''P'' demoSpent) ''P'' =
       Some \<lparr>playerName = ''P'', playerType = ''BAT'', sessionBasePrice = Some 50000,
             bids = [\<lparr>bidderTeam = ''A'', amount = 150000, timestamp = 2\<rparr>,
                     \<lparr>bidderTeam = ''B'', amount = 100000, timestamp = 1\<rparr>],
             biddingStartTime = 1, status = Closed, biddingType = Regular, lastBidTime = Some 2,
             closedAt = Some 4, soldTo = None, finalPrice = None, soldAt = None\<rparr>"
proof -
  let ?r' = "resolve demoCat 3 Regular ''P'' demoBidding"
  have s: "sessionOf Regular demoBidding ''P'' = Some demoSession"
    by (simp add: demoBidding_eq sessionOf_def)
  have a: "status demoSession = Active" by (simp add: demoSession_def)
  have n: "bids demoSession \<noteq> []" by (simp add: demoSession_def)
  note th = resolution_rule [OF demoBidding_reachable s a, of 3]
  from th have t: "timerFires demoCat 3 Regular ''P'' demoBidding = ?r'"
    by (rule conjunct1)
  from th have c: "close_bidding demoCat 3 ''P'' ''regular'' demoBidding = (Inr (), ?r')"
    by (simp add: typeParam_def)
  from th n obtain w t pl where
    w: "w \<in> set (bids demoSession)" "\<forall>b \<in> set (bids demoSession). amount b \<le> amount w"
    and u: "map_of (users demoBidding) (bidderTeam w) = Some t"
    and p: "findPlayer (pool Regular demoCat) ''P'' = Some pl"
    and o: "if amount w \<le> budget t \<and> length (players t) < MAX_PLAYERS_PER_TEAM
            then sale Regular ''P'' 3 w t pl demoSession demoBidding ?r'
                 \<and> (safe (budget t) \<and> whole (amount w) \<and> 0 \<le> amount w \<longrightarrow>
                      jsMinus (budget t) (amount w) = budget t - amount w)
            else noSale Regular ''P'' 3 demoSession demoBidding ?r'"
    by blast
  from w have w': "w = \<lparr>bidderTeam = ''B'', amount = 150000, timestamp = 2\<rparr>"
    by (auto simp: demoSession_def)
  from u have t': "t = newUser ''B'' 1000000"
    by (simp add: w' demoBidding_eq demoRoom_def)
  from p have p': "pl = \<lparr>name = ''P'', team = ''X'', ptype = ''BAT'', basePrice = Some 50000\<rparr>"
    by (simp add: pool_def demoCat_def findPlayer_def)
  from o have sl: "sale Regular ''P'' 3 w t pl demoSession demoBidding ?r'"
    and ex: "jsMinus (budget t) (amount w) = budget t - amount w"
    by (simp_all add: w' t' newUser_def MAX_PLAYERS_PER_TEAM_def safe_def whole_def)
  from sl ex have us: "users ?r' =
       [(''A'', newUser ''A'' 1000000),
        (''B'', \<lparr>username = ''B'', budget = 850000,
                players = [\<lparr>name = ''P'', team = ''X'', ptype = ''BAT'',
                            basePrice = Some 50000, boughtPrice = 150000, boughtAt = 3,
                            awardedBy = Some ''auto_highest_bid''\<rparr>]\<rparr>)]"
    by (simp add: sale_def w' t' p' demoBidding_eq demoRoom_def newUser_def)
  from sl have sp: "soldPlayers ?r' = {''P''}"
    by (simp add: sale_def demoBidding_eq demoRoom_def)
  from sl have ss: "sessionOf Regular ?r' ''P'' =
       Some \<lparr>playerName = ''P'', playerType = ''BAT'', sessionBasePrice = Some 50000,
             bids = [\<lparr>bidderTeam = ''B'', amount = 150000, timestamp = 2\<rparr>,
                     \<lparr>bidderTeam = ''A'', amount = 100000, timestamp = 1\<rparr>],
             biddingStartTime = 1, status = Sold, biddingType = Regular, lastBidTime = Some 2,
             closedAt = Some 3, soldTo = Some ''B'', finalPrice = Some 150000,
             soldAt = Some 3\<rparr>"
    by (simp add: sale_def w' demoSession_sorted) (simp add: demoSession_def)
  let ?q' = "resolve demoCat 4 Regular ''P'' demoSpent"
  have s2: "sessionOf Regular demoSpent ''P'' = Some demoOutbidSession"
    by (simp add: demoSpent_def sessionOf_def)
  have a2: "status demoOutbidSession = Active" by (simp add: demoOutbidSession_def)
  have n2: "bids demoOutbidSession \<noteq> []" by (simp add: demoOutbidSession_def)
  have b2: "map_option budget (map_of (users demoSpent) ''A'') = Some 100000"
    by (simp add: demoSpent_def)
  from resolution_rule [OF demoSpent_reachable s2 a2, of 4] n2 obtain w2 t2 pl2 where
    w2: "w2 \<in> set (bids demoOutbidSession)"
      "\<forall>b \<in> set (bids demoOutbidSession). amount b \<le> amount w2"
    and u2: "map_of (users demoSpent) (bidderTeam w2) = Some t2"
    and o2: "if amount w2 \<le> budget t2 \<and> length (players t2) < MAX_PLAYERS_PER_TEAM
            then sale Regular ''P'' 4 w2 t2 pl2 demoOutbidSession demoSpent ?q'
                 \<and> (safe (budget t2) \<and> whole (amount w2) \<and> 0 \<le> amount w2 \<longrightarrow>
                      jsMinus (budget t2) (amount w2) = budget t2 - amount w2)
            else noSale Regular ''P'' 4 demoOutbidSession demoSpent ?q'"
    by blast
  from w2 have w2': "w2 = \<lparr>bidderTeam = ''A'', amount = 150000, timestamp = 2\<rparr>"
    by (auto simp: demoOutbidSession_def)
  from u2 have "budget t2 = 100000"
    by (auto simp: w2' demoSpent_def)
  with o2 have ns: "noSale Regular ''P'' 4 demoOutbidSession demoSpent ?q'"
    by (simp add: w2')
  from ns have us2: "users ?q' = users demoSpent" by (simp add: noSale_def)
  from ns have sp2: "soldPlayers ?q' = {''Q''}" by (simp add: noSale_def demoSpent_def)
  have srt2: "sortBids (bids demoOutbidSession) =
     [\<lparr>bidderTeam = ''A'', amount = 150000, timestamp = 2\<rparr>,
      \<lparr>bidderTeam = ''B'', amount = 100000, timestamp = 1\<rparr>]"
    by (simp add: sortBids_def demoOutbidSession_def)
  from ns have ss2: "sessionOf Regular ?q' ''P'' =
       Some \<lparr>playerName = ''P'', playerType = ''BAT'', sessionBasePrice = Some 50000,
             bids = [\<lparr>bidderTeam = ''A'', amount = 150000, timestamp = 2\<rparr>,
                     \<lparr>bidderTeam = ''B'', amount = 100000, timestamp = 1\<rparr>],
             biddingStartTime = 1, status = Closed, biddingType = Regular, lastBidTime = Some 2,
             closedAt = Some 4, soldTo = None, finalPrice = None, soldAt = None\<rparr>"
    by (simp add: noSale_def srt2) (simp add: demoOutbidSession_def)
  show ?thesis
    by (intro conjI demoBidding_reachable s a n t c us sp ss
        demoSpent_reachable s2 a2 n2 b2 us2 sp2 ss2)
qed

subsection \<open>Regular bids ascend\<close>

lemma currentHighestBid_Max:
  "currentHighestBid bs = (if bs = [] then 0 else Max (amount ` set bs))"
  by (cases bs) (simp_all add: currentHighestBid_def Max.set_eq_fold [symmetric])

lemma currentHighestBid_set:
  "set bs = set bs' \<Longrightarrow> currentHighestBid bs = currentHighestBid bs'"
  by (metis currentHighestBid_Max set_empty)

lemma currentHighestBid_snoc:
  assumes "currentHighestBid bs < amount b"
  shows "currentHighestBid (bs @ [b]) = amount b"
proof (cases "bs = []")
  case True
  then show ?thesis by (simp add: currentHighestBid_def)
next
  case False
  have "\<forall>x\<in>set bs. amount x \<le> Max (amount ` set bs)" by simp
  with assms False have "\<forall>x\<in>set bs. amount x \<le> amount b"
    by (fastforce simp: currentHighestBid_Max)
  then show ?thesis
    by (auto simp: currentHighestBid_Max intro!: Max_eqI)
qed

lemma regular_place_bid:
  "(fst (place_bid cat now k amt tn r) = Inr () \<and> k = pn
      \<and> currentHighestBid (regularBidsOf r pn) < amt
      \<and> regularBidsOf (snd (place_bid cat now k amt tn r)) pn =
          regularBidsOf r pn @ [\<lparr>bidderTeam = tn, amount = amt, timestamp = now\<rparr>])
   \<or> (\<not> (fst (place_bid cat now k amt tn r) = Inr () \<and> k = pn)
      \<and> regularBidsOf (snd (place_bid cat now k amt tn r)) pn = regularBidsOf r pn)"
proof (cases "map_of (currentBids r) k")
  case None
  show ?thesis
    unfolding place_bid_None [OF None]
    using None
    by (auto simp: regularBidsOf_def update_conv' newSession_def currentHighestBid_def
        split: option.split)
next
  case (Some bd)
  show ?thesis
    unfolding place_bid_Some [OF Some]
    using Some
    by (auto simp: regularBidsOf_def update_conv' split: option.split)
qed

lemma regular_autoAward:
  "set (regularBidsOf (autoAwardPlayer cat now k r) pn) = set (regularBidsOf r pn)"
proof (cases "\<exists>bd. map_of (currentBids r) k = Some bd \<and> status bd = Active")
  case True
  then obtain bd where bd: "map_of (currentBids r) k = Some bd" "status bd = Active" by blast
  show ?thesis
    using bd(1) by (simp add: regularBidsOf_def autoAwardPlayer_session [OF bd] update_conv')
next
  case False
  then have "autoAwardPlayer cat now k r = r"
    by (intro autoAwardPlayer_inactive) (cases "map_of (currentBids r) k"; auto)
  then show ?thesis by simp
qed

lemma regular_resort:
  "set (regularBidsOf (r1\<lparr>currentBids := resortSession k (currentBids r1)\<rparr>) pn)
     = set (regularBidsOf r1 pn)"
  by (cases "map_of (currentBids r1) pn") (auto simp: regularBidsOf_def map_of_resortSession)

lemma regular_close_bidding:
  "set (regularBidsOf (snd (close_bidding cat now k bt r)) pn) = set (regularBidsOf r pn)"
  using close_bidding_cases [of cat now k bt r]
proof (elim disjE)
  assume "snd (close_bidding cat now k bt r) =
       (autoAwardPlayer cat now k r)
         \<lparr>currentBids := resortSession k (currentBids (autoAwardPlayer cat now k r))\<rparr>"
  then show ?thesis by (simp only: regular_resort regular_autoAward)
next
  assume "snd (close_bidding cat now k bt r) =
       (autoAwardBlindBidPlayer cat now k r)
         \<lparr>blindBids := resortSession k (blindBids (autoAwardBlindBidPlayer cat now k r))\<rparr>"
  then show ?thesis by (simp add: regularBidsOf_def autoAwardBlind_tables)
qed simp

lemma regular_start_bidding:
  "regularBidsOf (snd (start_bidding cat now k r)) pn = regularBidsOf r pn"
  unfolding start_bidding_def
  by (auto simp: regularBidsOf_def update_conv' newSession_def split: option.split)

lemma regular_queries:
  "set (regularBidsOf (player_bids now k r) pn) = set (regularBidsOf r pn)"
  "set (regularBidsOf (snd (room_bids now r)) pn) = set (regularBidsOf r pn)"
  "set (regularBidsOf (bidding_history now r) pn) = set (regularBidsOf r pn)"
  by (auto simp: regularBidsOf_def player_bids_def room_bids_def bidding_history_def Let_def
      update_conv' map_of_sortActive map_of_sortTerminal split: option.splits)

lemma regular_untouched:
  "regularBidsOf (snd (select_player cat now k price tn r)) pn = regularBidsOf r pn"
  "regularBidsOf (snd (place_blind_bid cat now k amt tn r)) pn = regularBidsOf r pn"
  "regularBidsOf (snd (start_blind_bidding cat now k r)) pn = regularBidsOf r pn"
  "regularBidsOf (autoAwardBlindBidPlayer cat now k r) pn = regularBidsOf r pn"
  "regularBidsOf (join_room now tn r) pn = regularBidsOf r pn"
  "regularBidsOf (snd (blind_bids now k r)) pn = regularBidsOf r pn"
  "regularBidsOf (snd (next_batch cat now r)) pn = regularBidsOf r pn"
  "regularBidsOf (updateRoomActivity now r) pn = regularBidsOf r pn"
  by (simp_all add: regularBidsOf_def select_player_def place_blind_bid_frame
      start_blind_bidding_def autoAwardBlind_tables join_room_def blind_bids_def
      next_batch_def updateRoomActivity_def Let_def split: option.split prod.split)

lemma regular_step:
  "(\<exists>amt tn. opn = PlaceBid pn amt tn \<and> fst (place_bid cat now pn amt tn r) = Inr ()
      \<and> currentHighestBid (regularBidsOf r pn) < amt
      \<and> regularBidsOf (step cat now opn r) pn =
          regularBidsOf r pn @ [\<lparr>bidderTeam = tn, amount = amt, timestamp = now\<rparr>])
   \<or> ((\<forall>amt tn. opn = PlaceBid pn amt tn \<longrightarrow> fst (place_bid cat now pn amt tn r) \<noteq> Inr ())
      \<and> set (regularBidsOf (step cat now opn r) pn) = set (regularBidsOf r pn))"
proof (cases opn)
  case (PlaceBid k amt tn)
  then show ?thesis using regular_place_bid [of cat now k amt tn r pn] by auto
qed (simp_all add: regular_autoAward regular_close_bidding regular_start_bidding
    regular_queries regular_untouched timer_regular_eq timer_blind_eq)

lemma accepted_above:
  "(\<forall>a \<in> set (acceptedBids cat pn ops r). currentHighestBid (regularBidsOf r pn) < a)
   \<and> sorted_wrt (<) (acceptedBids cat pn ops r)"
proof (induction ops arbitrary: r)
  case Nil
  then show ?case by simp
next
  case (Cons x ops)
  obtain now opn where x: "x = (now, opn)" by (cases x)
  let ?r' = "step cat now opn r"
  note IH = Cons.IH [of ?r']
  from regular_step [of opn pn cat now r] show ?case
  proof (elim disjE exE conjE)
    fix amt tn
    assume a: "opn = PlaceBid pn amt tn" "fst (place_bid cat now pn amt tn r) = Inr ()"
      "currentHighestBid (regularBidsOf r pn) < amt"
      "regularBidsOf ?r' pn = regularBidsOf r pn @ [\<lparr>bidderTeam = tn, amount = amt, timestamp = now\<rparr>]"
    have "currentHighestBid (regularBidsOf ?r' pn) = amt"
      unfolding a(4) using a(3) by (simp add: currentHighestBid_snoc)
    with IH a(1,2,3) show ?thesis by (auto simp: x)
  next
    assume b: "\<forall>amt tn. opn = PlaceBid pn amt tn \<longrightarrow> fst (place_bid cat now pn amt tn r) \<noteq> Inr ()"
      "set (regularBidsOf ?r' pn) = set (regularBidsOf r pn)"
    have "currentHighestBid (regularBidsOf ?r' pn) = currentHighestBid (regularBidsOf r pn)"
      by (rule currentHighestBid_set [OF b(2)])
    moreover from b(1) have "acceptedBids cat pn (x # ops) r = acceptedBids cat pn ops ?r'"
      by (cases opn) (auto simp: x)
    ultimately show ?thesis using IH by simp
  qed
qed

lemma place_bid_too_low:
  assumes "amt \<le> currentHighestBid (regularBidsOf r pn)"
  shows "(\<exists>e. fst (place_bid cat now pn amt tn r) = Inl e)
         \<and> regularBidsOf (snd (place_bid cat now pn amt tn r)) pn = regularBidsOf r pn"
  using regular_place_bid [of cat now pn amt tn r pn] assms
  by (cases "fst (place_bid cat now pn amt tn r)") auto

lemma place_bid_BidTooLow:
  assumes "amt \<le> currentHighestBid (regularBidsOf r pn)" "passesEarlierChecks cat r pn amt tn"
  shows "fst (place_bid cat now pn amt tn r) = Inl BidTooLow"
proof (cases "map_of (currentBids r) pn")
  case None
  with assms show ?thesis
    unfolding place_bid_None [OF None]
    by (auto simp: passesEarlierChecks_def regularBidsOf_def currentHighestBid_def
        split: option.splits)
next
  case (Some bd)
  with assms show ?thesis
    unfolding place_bid_Some [OF Some]
    by (auto simp: passesEarlierChecks_def regularBidsOf_def split: option.splits)
qed

text \<open>
  C5. A regular bid whose amount is less than or equal to the highest amount in the
  player's session (zero when the session has no bid) is rejected and not recorded, and
  the reason given is "bid too low" whenever the request passes the checks made before
  it; hence the amounts of the bids accepted for one player along any run of a room are
  strictly increasing.
\<close>

theorem regular_bids_strictly_increasing:
  "(amt \<le> currentHighestBid (regularBidsOf r pn) \<longrightarrow>
      (\<exists>e. fst (place_bid cat now pn amt tn r) = Inl e)
      \<and> regularBidsOf (snd (place_bid cat now pn amt tn r)) pn = regularBidsOf r pn
      \<and> (passesEarlierChecks cat r pn amt tn \<longrightarrow>
           fst (place_bid cat now pn amt tn r) = Inl BidTooLow))
   \<and> sorted_wrt (<) (acceptedBids cat pn ops r0)"
  using place_bid_too_low [of amt r pn cat now tn] place_bid_BidTooLow [of amt r pn cat tn now]
    accepted_above [of cat pn ops r0]
  by blast

lemma demoBidding_third:
  "step demoCat 3 (PlaceBid ''P'' 150000 ''A'') demoBidding = demoBidding"
  "fst (place_bid demoCat 3 ''P'' 150000 ''A'' demoBidding) = Inl BidTooLow"
  by (simp_all add: demoBidding_eq place_bid_def demoRoom_def demoCat_def newUser_def
      findPlayer_def MAX_PLAYERS_PER_TEAM_def currentHighestBid_def demoSession_def)

lemma demoBids_accepted: "acceptedBids demoCat ''P'' demoBids demoRoom = [100000, 150000]"
proof -
  let ?r1 = "step demoCat 1 (PlaceBid ''P'' 100000 ''A'') demoRoom"
  have 1: "fst (place_bid demoCat 1 ''P'' 100000 ''A'' demoRoom) = Inr ()"
    by (simp add: place_bid_def demoRoom_def demoCat_def newUser_def findPlayer_def
        MAX_PLAYERS_PER_TEAM_def newSession_def currentHighestBid_def)
  have 2: "fst (place_bid demoCat 2 ''P'' 150000 ''B'' ?r1) = Inr ()"
    by (simp add: place_bid_def demoRoom_def demoCat_def newUser_def findPlayer_def
        MAX_PLAYERS_PER_TEAM_def newSession_def currentHighestBid_def)
  have 3: "step demoCat 2 (PlaceBid ''P'' 150000 ''B'') ?r1 = demoBidding"
    by (simp add: demoBidding_def)
  show ?thesis
    unfolding demoBids_def
    by (simp add: 1 2 3 demoBidding_third del: step.simps One_nat_def)
qed

theorem regular_bids_strictly_increasing_witness:
  "(150000 :: number) \<le> currentHighestBid (regularBidsOf demoBidding ''P'')
   \<and> passesEarlierChecks demoCat demoBidding ''P'' 150000 ''A''
   \<and> fst (place_bid demoCat 3 ''P'' 150000 ''A'' demoBidding) = Inl BidTooLow
   \<and> regularBidsOf (snd (place_bid demoCat 3 ''P'' 150000 ''A'' demoBidding)) ''P''
       = regularBidsOf demoBidding ''P''
   \<and> acceptedBids demoCat ''P'' demoBids demoRoom = [100000, 150000]
   \<and> sorted_wrt (<) (acceptedBids demoCat ''P'' demoBids demoRoom)"
proof -
  have h: "(150000 :: number) \<le> currentHighestBid (regularBidsOf demoBidding ''P'')"
    by (simp add: demoBidding_eq regularBidsOf_def demoSession_def currentHighestBid_def)
  have p: "passesEarlierChecks demoCat demoBidding ''P'' 150000 ''A''"
    by (simp add: passesEarlierChecks_def demoBidding_eq demoRoom_def demoCat_def newUser_def
        findPlayer_def MAX_PLAYERS_PER_TEAM_def demoSession_def)
  show ?thesis
    using h p demoBids_accepted
      regular_bids_strictly_increasing
        [of 150000 demoBidding "''P''" demoCat 3 "''A''" demoBids demoRoom]
    by simp
qed


subsection \<open>Sessions that are closed or sold\<close>

lemma demoResolved_session:
  "sessionOf Regular demoResolved ''P''
     = Some (soldSession (closedSession demoSession 3)
               \<lparr>bidderTeam = ''B'', amount = 150000, timestamp = 2\<rparr> 3)"
proof -
  have s: "map_of (currentBids demoBidding) ''P'' = Some demoSession"
    by (simp add: demoBidding_eq)
  have a: "status demoSession = Active" by (simp add: demoSession_def)
  have "awardee demoCat demoBidding ''P'' demoSession
          = Some (\<lparr>bidderTeam = ''B'', amount = 150000, timestamp = 2\<rparr>,
                  newUser ''B'' 1000000,
                  \<lparr>name = ''P'', team = ''X'', ptype = ''BAT'', basePrice = Some 50000\<rparr>)"
    by (simp add: awardee_def demoSession_winner demoBidding_eq demoRoom_def demoCat_def
        findPlayer_def newUser_def MAX_PLAYERS_PER_TEAM_def)
  then show ?thesis
    by (simp add: demoResolved_def timer_regular_eq sessionOf_def
        autoAwardPlayer_active [OF s a] update_conv')
qed

lemma demoResolved_reachable: "reachable demoCat demoResolved"
  unfolding demoResolved_def by (intro reachable.stepped demoBidding_reachable)

text \<open>
  C7, as the code has it. For a session that is closed or sold, in a room reachable from
  its creation, the award function and the timer callback return the room as it is, and
  the manual close rejects the request with the reason that the session is not active and
  also leaves the room as it is: no budget, roster, sold set or session changes.
\<close>

theorem terminal_session_untouched:
  assumes "reachable cat r" "sessionOf k r pn = Some bd" "status bd \<noteq> Active"
  shows "resolve cat now k pn r = r \<and> timerFires cat now k pn r = r
         \<and> close_bidding cat now pn (typeParam k) r = (Inl SessionNotActive, r)"
proof -
  from session_known [OF assms(1,2)] have "pn \<noteq> []" by simp
  with assms(2,3) show ?thesis
    by (cases k)
      (simp_all add: sessionOf_def resolve_def timerFires_def typeParam_def
        timer_regular_eq timer_blind_eq autoAwardPlayer_def autoAwardBlindBidPlayer_def
        close_bidding_def)
qed

theorem terminal_session_untouched_witness:
  "reachable demoCat demoResolved
   \<and> map_option status (sessionOf Regular demoResolved ''P'') = Some Sold
   \<and> resolve demoCat 9 Regular ''P'' demoResolved = demoResolved
   \<and> timerFires demoCat 9 Regular ''P'' demoResolved = demoResolved
   \<and> close_bidding demoCat 9 ''P'' ''regular'' demoResolved = (Inl SessionNotActive, demoResolved)"
proof -
  have s: "status (soldSession (closedSession demoSession 3)
               \<lparr>bidderTeam = ''B'', amount = 150000, timestamp = 2\<rparr> 3) \<noteq> Active"
    by (simp add: soldSession_def)
  show ?thesis
    using terminal_session_untouched [OF demoResolved_reachable demoResolved_session s, of 9]
      demoResolved_reachable
    by (simp add: demoResolved_session soldSession_def typeParam_def)
qed

text \<open>
  The manual close of a session that is already sold is answered with an error, not
  accepted as a request that does nothing.
\<close>

theorem manual_close_terminal_counterexample:
  "map_option status (sessionOf Regular demoResolved ''P'') = Some Sold
   \<and> fst (close_bidding demoCat 9 ''P'' ''regular'' demoResolved) = Inl SessionNotActive"
proof -
  have "map_of (currentBids demoResolved) ''P''
     = Some (soldSession (closedSession demoSession 3)
               \<lparr>bidderTeam = ''B'', amount = 150000, timestamp = 2\<rparr> 3)"
    using demoResolved_session by (simp add: sessionOf_def)
  then show ?thesis
    by (simp add: close_bidding_def sessionOf_def soldSession_def)
qed

subsection \<open>Ties between blind bids\<close>

text \<open>
  C9. In a room reachable from its creation, take a player without a blind session and any
  run after which the player's blind session is active and holds bids. The session then
  holds exactly the blind bids accepted for the player along the run, in the order in
  which they were received. Resolution selects the earliest of the bids with the greatest
  amount: every bid received before it is lower and none received after it is higher. When
  that bid's team has at least the amount left and fewer than fifteen players, the player
  is sold to that team: its budget is debited, the record appended to its roster and the
  session sold to it. Otherwise the session is closed and the player is sold to nobody:
  the later bid of the same amount is not tried.
\<close>

theorem blind_tie_break:
  assumes "reachable cat r0" "sessionOf Blind r0 pn = None"
    and "sessionOf Blind (run cat ops r0) pn = Some bd" "status bd = Active" "bids bd \<noteq> []"
  shows "bids bd = blindArrivals cat pn ops r0
    \<and> (\<exists>pre w post t pl. blindArrivals cat pn ops r0 = pre @ w # post
          \<and> (\<forall>b \<in> set pre. amount b < amount w) \<and> (\<forall>b \<in> set post. amount b \<le> amount w)
          \<and> map_of (users (run cat ops r0)) (bidderTeam w) = Some t
          \<and> findPlayer (blindBidPlayers cat) pn = Some pl
          \<and> (if amount w \<le> budget t \<and> length (players t) < MAX_PLAYERS_PER_TEAM
              then sale Blind pn now w t pl bd (run cat ops r0)
                     (resolve cat now Blind pn (run cat ops r0))
              else noSale Blind pn now bd (run cat ops r0)
                     (resolve cat now Blind pn (run cat ops r0))))"
proof -
  let ?r = "run cat ops r0"
  from assms(2,3) have s0: "map_of (blindBids r0) pn = None"
    and s: "map_of (blindBids ?r) pn = Some bd"
    by (simp_all add: sessionOf_def)
  from blind_arrival_order [OF s assms(4)] s0
  have arr: "bids bd = blindArrivals cat pn ops r0" by (simp add: blindBidsOf_def)
  from assms(5) obtain w where w: "winningBid (bids bd) = Some w"
    using winningBid_None [of "bids bd"] by (cases "winningBid (bids bd)") auto
  from winningBid_first [OF w] arr obtain pre post where
    first: "blindArrivals cat pn ops r0 = pre @ w # post"
      "\<forall>b \<in> set pre. amount b < amount w" "\<forall>b \<in> set post. amount b \<le> amount w"
    by auto
  have "reachable cat ?r" by (rule reachable_run [OF assms(1)])
  from first_bid_resolved [OF this assms(3,4) w, of now] obtain t pl where
    "map_of (users ?r) (bidderTeam w) = Some t" "findPlayer (blindBidPlayers cat) pn = Some pl"
    "if amount w \<le> budget t \<and> length (players t) < MAX_PLAYERS_PER_TEAM
     then sale Blind pn now w t pl bd ?r (resolve cat now Blind pn ?r)
     else noSale Blind pn now bd ?r (resolve cat now Blind pn ?r)"
    by (auto simp: pool_def)
  with arr first show ?thesis by blast
qed

lemma demoTie_run:
  "run demoCat demoTie demoRoom = demoRoom\<lparr>blindBids := [(''Q'', demoTieSession)], lastActivity := 3\<rparr>"
  by (simp add: demoTie_def start_blind_bidding_def place_blind_bid_def demoRoom_def
      demoCat_def newUser_def findPlayer_def blindBidPlayers_def MAX_PLAYERS_PER_TEAM_def
      newSession_def demoTieSession_def)

lemma demoTie_arrivals:
  "blindArrivals demoCat ''Q'' demoTie demoRoom =
     [\<lparr>bidderTeam = ''A'', amount = 200000, timestamp = 2\<rparr>,
      \<lparr>bidderTeam = ''B'', amount = 200000, timestamp = 3\<rparr>]"
  by (simp add: demoTie_def start_blind_bidding_def place_blind_bid_def demoRoom_def
      demoCat_def newUser_def findPlayer_def blindBidPlayers_def MAX_PLAYERS_PER_TEAM_def
      newSession_def)

lemma demoTie_winner:
  "winningBid (bids demoTieSession) = Some \<lparr>bidderTeam = ''A'', amount = 200000, timestamp = 2\<rparr>"
  by (simp add: winningBid_def sortBids_def demoTieSession_def)

theorem blind_tie_break_witness:
  "reachable demoCat demoRoom \<and> sessionOf Blind demoRoom ''Q'' = None
   \<and> sessionOf Blind (run demoCat demoTie demoRoom) ''Q'' = Some demoTieSession
   \<and> status demoTieSession = Active \<and> bids demoTieSession \<noteq> []
   \<and> blindArrivals demoCat ''Q'' demoTie demoRoom =
       [\<lparr>bidderTeam = ''A'', amount = 200000, timestamp = 2\<rparr>,
        \<lparr>bidderTeam = ''B'', amount = 200000, timestamp = 3\<rparr>]
   \<and> bids demoTieSession = blindArrivals demoCat ''Q'' demoTie demoRoom
   \<and> users (resolve demoCat 9 Blind ''Q'' (run demoCat demoTie demoRoom)) =
       [(''A'', \<lparr>username = ''A'', budget = 800000,
                players = [\<lparr>name = ''Q'', team = ''Y'', ptype = ''BOWL'', basePrice = None,
                            boughtPrice = 200000, boughtAt = 9,
                            awardedBy = Some ''auto_blind_bid''\<rparr>]\<rparr>),
        (''B'', newUser ''B'' 1000000)]
   \<and> soldPlayers (resolve demoCat 9 Blind ''Q'' (run demoCat demoTie demoRoom)) = {''Q''}
   \<and> sessionOf Blind (resolve demoCat 9 Blind ''Q'' (run demoCat demoTie demoRoom)) ''Q'' =
       Some \<lparr>playerName = ''Q'', playerType = ''BOWL'', sessionBasePrice = None,
             bids = [\<lparr>bidderTeam = ''A'', amount = 200000, timestamp = 2\<rparr>,
                     \<lparr>bidderTeam = ''B'', amount = 200000, timestamp = 3\<rparr>],
             biddingStartTime = 1, status = Sold, biddingType = Blind, lastBidTime = Some 3,
             closedAt = Some 9, soldTo = Some ''A'', finalPrice = Some 200000,
             soldAt = Some 9\<rparr>"
proof -
  let ?r = "run demoCat demoTie demoRoom"
  let ?r' = "resolve demoCat 9 Blind ''Q'' ?r"
  let ?a = "\<lparr>bidderTeam = ''A'', amount = 200000, timestamp = 2\<rparr>"
  let ?b = "\<lparr>bidderTeam = ''B'', amount = 200000, timestamp = 3\<rparr>"
  have r: "reachable demoCat demoRoom" by (rule reachable.created [OF demo_created])
  have s0: "sessionOf Blind demoRoom ''Q'' = None" by (simp add: sessionOf_def demoRoom_def)
  have s: "sessionOf Blind ?r ''Q'' = Some demoTieSession"
    by (simp add: demoTie_run sessionOf_def)
  have a: "status demoTieSession = Active" by (simp add: demoTieSession_def)
  have n: "bids demoTieSession \<noteq> []" by (simp add: demoTieSession_def)
  note th = blind_tie_break [OF r s0 s a n, of 9]
  from th have b: "bids demoTieSession = blindArrivals demoCat ''Q'' demoTie demoRoom"
    by (rule conjunct1)
  then have arr: "blindArrivals demoCat ''Q'' demoTie demoRoom = [?a, ?b]"
    by (simp add: demoTieSession_def)
  from th obtain pre w post t pl where
    d: "[?a, ?b] = pre @ w # post" "\<forall>b \<in> set pre. amount b < amount w"
    and u: "map_of (users ?r) (bidderTeam w) = Some t"
    and p: "findPlayer (blindBidPlayers demoCat) ''Q'' = Some pl"
    and o: "if amount w \<le> budget t \<and> length (players t) < MAX_PLAYERS_PER_TEAM
            then sale Blind ''Q'' 9 w t pl demoTieSession ?r ?r'
            else noSale Blind ''Q'' 9 demoTieSession ?r ?r'"
    unfolding arr by blast
  from d have w': "w = ?a"
    by (cases pre) (auto simp: Cons_eq_append_conv)
  from u have t': "t = newUser ''A'' 1000000"
    unfolding demoTie_run by (simp add: w' demoRoom_def)
  from p have p': "pl = \<lparr>name = ''Q'', team = ''Y'', ptype = ''BOWL'', basePrice = None\<rparr>"
    by (simp add: blindBidPlayers_def demoCat_def findPlayer_def)
  from o have sl: "sale Blind ''Q'' 9 w t pl demoTieSession ?r ?r'"
    by (simp add: w' t' newUser_def MAX_PLAYERS_PER_TEAM_def)
  from sl have us: "users ?r' =
       [(''A'', \<lparr>username = ''A'', budget = 800000,
                players = [\<lparr>name = ''Q'', team = ''Y'', ptype = ''BOWL'', basePrice = None,
                            boughtPrice = 200000, boughtAt = 9,
                            awardedBy = Some ''auto_blind_bid''\<rparr>]\<rparr>),
        (''B'', newUser ''B'' 1000000)]"
    unfolding sale_def demoTie_run by (simp add: w' t' p' demoRoom_def newUser_def)
  from sl have sp: "soldPlayers ?r' = {''Q''}"
    unfolding sale_def demoTie_run by (simp add: demoRoom_def)
  have srt: "sortBids (bids demoTieSession) = [?a, ?b]"
    by (simp add: sortBids_def demoTieSession_def)
  from sl have ss: "sessionOf Blind ?r' ''Q'' =
       Some \<lparr>playerName = ''Q'', playerType = ''BOWL'', sessionBasePrice = None,
             bids = [\<lparr>bidderTeam = ''A'', amount = 200000, timestamp = 2\<rparr>,
                     \<lparr>bidderTeam = ''B'', amount = 200000, timestamp = 3\<rparr>],
             biddingStartTime = 1, status = Sold, biddingType = Blind, lastBidTime = Some 3,
             closedAt = Some 9, soldTo = Some ''A'', finalPrice = Some 200000,
             soldAt = Some 9\<rparr>"
    by (simp add: sale_def w' srt) (simp add: demoTieSession_def)
  show ?thesis by (intro conjI r s0 s a n arr b us sp ss)
qed

subsection \<open>Blind amounts stay hidden\<close>

lemma status_hideAmounts [simp]: "status (hideAmounts bd) = status bd"
  by (simp add: hideAmounts_def)

lemma blindEntry_hideAmounts [simp]: "blindEntry now (hideAmounts bd) = blindEntry now bd"
  by (simp add: blindEntry_def hideAmounts_def)

lemma map_of_blindView:
  "map_of (blindBids (blindView r)) pn = map_option hideAmounts (map_of (blindBids r) pn)"
proof -
  have "\<And>tbl. map_of (map (\<lambda>(k, bd). (k, hideAmounts bd)) tbl) pn
          = map_option hideAmounts (map_of tbl pn)"
    subgoal for tbl by (induction tbl) auto
    done
  then show ?thesis by (simp add: blindView_def)
qed

lemma active_entries_blindView:
  "map (blindEntry now) (filter (\<lambda>bd. status bd = Active) (map snd (blindBids (blindView r))))
     = map (blindEntry now) (filter (\<lambda>bd. status bd = Active) (map snd (blindBids r)))"
proof -
  have "\<And>tbl. map (blindEntry now)
           (filter (\<lambda>bd. status bd = Active) (map snd (map (\<lambda>(k, bd). (k, hideAmounts bd)) tbl)))
        = map (blindEntry now) (filter (\<lambda>bd. status bd = Active) (map snd tbl))"
    subgoal for tbl by (induction tbl) auto
    done
  then show ?thesis by (simp add: blindView_def)
qed

lemma room_bids_blindView: "fst (room_bids now (blindView r)) = fst (room_bids now r)"
proof -
  have "currentBids (blindView r) = currentBids r" by (simp add: blindView_def)
  then show ?thesis
    by (simp add: room_bids_def Let_def active_entries_blindView)
qed

lemma blind_bids_blindView:
  assumes "openForBids (map_of (blindBids r) pn)"
  shows "fst (blind_bids now pn (blindView r)) = fst (blind_bids now pn r)"
  using assms
  by (cases "map_of (blindBids r) pn")
    (simp_all add: blind_bids_def map_of_blindView openForBids_def hideAmounts_def)

lemma openForBids_blindView:
  "openForBids (map_of (blindBids (blindView r)) pn) = openForBids (map_of (blindBids r) pn)"
  by (cases "map_of (blindBids r) pn") (simp_all add: map_of_blindView openForBids_def)

lemma blind_bids_revealed:
  assumes "map_of (blindBids r) pn = Some bd" "status bd \<noteq> Active"
  shows "fst (blind_bids now pn r) =
           BlindRevealed pn (playerType bd) (sortBids (bids bd)) (headOpt (sortBids (bids bd)))
             (length (bids bd)) (status bd) (biddingType bd) (biddingStartTime bd)
             (lastBidTime bd) (closedAt bd) (soldTo bd) (finalPrice bd)"
  using assms by (simp add: blind_bids_def Let_def)

text \<open>
  C8. Take two rooms that differ at most in the amounts of the bids held by their active
  blind sessions. The room-wide query of active bids answers both alike; the query of one
  player's blind bids answers both alike as long as the player's blind session is absent or
  active; and once the session is closed or sold that query lists the session's bids,
  sorted by descending amount.
\<close>

theorem blind_amounts_hidden:
  assumes "blindView r1 = blindView r2"
  shows "fst (room_bids now r1) = fst (room_bids now r2)
    \<and> (openForBids (map_of (blindBids r1) pn) \<longrightarrow>
         fst (blind_bids now pn r1) = fst (blind_bids now pn r2))
    \<and> (\<forall>bd. map_of (blindBids r1) pn = Some bd \<and> status bd \<noteq> Active \<longrightarrow>
         fst (blind_bids now pn r1) =
           BlindRevealed pn (playerType bd) (sortBids (bids bd)) (headOpt (sortBids (bids bd)))
             (length (bids bd)) (status bd) (biddingType bd) (biddingStartTime bd)
             (lastBidTime bd) (closedAt bd) (soldTo bd) (finalPrice bd))"
proof -
  have 1: "fst (room_bids now r1) = fst (room_bids now r2)"
    using room_bids_blindView [of now r1] room_bids_blindView [of now r2] assms by simp
  have 2: "fst (blind_bids now pn r1) = fst (blind_bids now pn r2)"
    if o: "openForBids (map_of (blindBids r1) pn)"
  proof -
    from o have "openForBids (map_of (blindBids r2) pn)"
      using openForBids_blindView [of r1 pn] openForBids_blindView [of r2 pn] assms by simp
    from blind_bids_blindView [OF o, of now] blind_bids_blindView [OF this, of now] assms
    show ?thesis by simp
  qed
  from 1 2 show ?thesis by (auto simp: blind_bids_revealed)
qed

lemma demoTie_views: "blindView (run demoCat demoTie demoRoom) = blindView demoOther"
  unfolding demoTie_run
  by (simp add: blindView_def demoOther_def hideAmounts_def demoTieSession_def)

lemma demoTieClosed_session:
  "map_of (blindBids demoTieClosed) ''Q'' =
     Some (soldSession (closedSession demoTieSession 9)
             \<lparr>bidderTeam = ''A'', amount = 200000, timestamp = 2\<rparr> 9)"
proof -
  have s: "map_of (blindBids (run demoCat demoTie demoRoom)) ''Q'' = Some demoTieSession"
    by (simp add: demoTie_run)
  have a: "status demoTieSession = Active" by (simp add: demoTieSession_def)
  have "awardee (blindBidPlayers demoCat) (run demoCat demoTie demoRoom) ''Q'' demoTieSession
          = Some (\<lparr>bidderTeam = ''A'', amount = 200000, timestamp = 2\<rparr>,
                  newUser ''A'' 1000000,
                  \<lparr>name = ''Q'', team = ''Y'', ptype = ''BOWL'', basePrice = None\<rparr>)"
    unfolding demoTie_run
    by (simp add: awardee_def demoTie_winner demoRoom_def demoCat_def blindBidPlayers_def
        findPlayer_def newUser_def MAX_PLAYERS_PER_TEAM_def)
  then show ?thesis
    by (simp add: demoTieClosed_def timer_blind_eq autoAwardBlind_active [OF s a] update_conv')
qed

theorem blind_amounts_hidden_witness:
  "blindView (run demoCat demoTie demoRoom) = blindView demoOther
   \<and> map (map amount \<circ> bids \<circ> snd) (blindBids (run demoCat demoTie demoRoom)) = [[200000, 200000]]
   \<and> map (map amount \<circ> bids \<circ> snd) (blindBids demoOther) = [[300000, 100000]]
   \<and> openForBids (map_of (blindBids (run demoCat demoTie demoRoom)) ''Q'')
   \<and> fst (room_bids 10 (run demoCat demoTie demoRoom)) = fst (room_bids 10 demoOther)
   \<and> fst (blind_bids 10 ''Q'' (run demoCat demoTie demoRoom)) = fst (blind_bids 10 ''Q'' demoOther)
   \<and> fst (blind_bids 10 ''Q'' demoOther) = BlindHidden ''Q'' ''BOWL'' 2 Active Blind 1 299991
   \<and> map_option status (map_of (blindBids demoTieClosed) ''Q'') = Some Sold
   \<and> fst (blind_bids 10 ''Q'' demoTieClosed) =
       BlindRevealed ''Q'' ''BOWL''
         [\<lparr>bidderTeam = ''A'', amount = 200000, timestamp = 2\<rparr>,
          \<lparr>bidderTeam = ''B'', amount = 200000, timestamp = 3\<rparr>]
         (Some \<lparr>bidderTeam = ''A'', amount = 200000, timestamp = 2\<rparr>)
         2 Sold Blind 1 (Some 3) (Some 9) (Some ''A'') (Some 200000)"
proof -
  have a: "map (map amount \<circ> bids \<circ> snd) (blindBids (run demoCat demoTie demoRoom)) = [[200000, 200000]]"
    unfolding demoTie_run by (simp add: demoTieSession_def)
  have b: "map (map amount \<circ> bids \<circ> snd) (blindBids demoOther) = [[300000, 100000]]"
    by (simp add: demoOther_def)
  have o: "openForBids (map_of (blindBids (run demoCat demoTie demoRoom)) ''Q'')"
    unfolding demoTie_run by (simp add: openForBids_def demoTieSession_def)
  have h: "fst (blind_bids 10 ''Q'' demoOther) = BlindHidden ''Q'' ''BOWL'' 2 Active Blind 1 299991"
    by (simp add: blind_bids_def demoOther_def demoTieSession_def timeRemaining_def
        BLIND_BID_TIMEOUT_def)
  have c: "status (soldSession (closedSession demoTieSession 9)
             \<lparr>bidderTeam = ''A'', amount = 200000, timestamp = 2\<rparr> 9) \<noteq> Active"
    by (simp add: soldSession_def)
  have srt: "sortBids (bids demoTieSession) = bids demoTieSession"
    by (simp add: sortBids_def demoTieSession_def)
  from blind_amounts_hidden [OF demoTie_views, of 10 "''Q''"] o
  have 1: "fst (room_bids 10 (run demoCat demoTie demoRoom)) = fst (room_bids 10 demoOther)"
    and 2: "fst (blind_bids 10 ''Q'' (run demoCat demoTie demoRoom)) = fst (blind_bids 10 ''Q'' demoOther)"
    by simp_all
  from blind_amounts_hidden [of demoTieClosed demoTieClosed 10 "''Q''", OF refl] demoTieClosed_session c
  have 3: "fst (blind_bids 10 ''Q'' demoTieClosed) =
       BlindRevealed ''Q'' ''BOWL''
         [\<lparr>bidderTeam = ''A'', amount = 200000, timestamp = 2\<rparr>,
          \<lparr>bidderTeam = ''B'', amount = 200000, timestamp = 3\<rparr>]
         (Some \<lparr>bidderTeam = ''A'', amount = 200000, timestamp = 2\<rparr>)
         2 Sold Blind 1 (Some 3) (Some 9) (Some ''A'') (Some 200000)"
    by (simp add: soldSession_def closedSession_def srt headOpt_def) (simp add: demoTieSession_def)
  show ?thesis
    using demoTie_views a b o 1 2 h 3 demoTieClosed_session
    by (simp add: soldSession_def)
qed


subsection \<open>Sets do not survive a reload\<close>

lemma in_memory_sets:
  "soldHas (roomValue r) x = Inr (x \<in> soldPlayers r)"
  "sentHas (roomValue r) x = Inr (x \<in> sentPlayers (batchState r))"
  by (simp_all add: roomValue_def soldHas_def sentHas_def soldPlayersOf_def sentPlayersOf_def
      batchStateValue_def)

lemma reloaded_sets:
  "map_option soldPlayersOf (reloaded r) = Some (Some (VObj []))"
  "map_option sentPlayersOf (reloaded r) = Some (Some (VObj []))"
  "map_option (\<lambda>v. soldHas v x) (reloaded r) = Some (Inl TypeError)"
  "map_option (\<lambda>v. sentHas v x) (reloaded r) = Some (Inl TypeError)"
  by (simp_all add: reloaded_def saveRoomsToDB_def loadRoomsFromDB_def roomValue_def
      soldHas_def sentHas_def soldPlayersOf_def sentPlayersOf_def batchStateValue_def)

text \<open>
  C10 at a concrete room. After team A has bought player P, the sold set of the room in
  memory holds P. Saved and loaded again, the room's \<^verbatim>\<open>soldPlayers\<close> is an object without
  properties: the membership of P is lost, and asking for it with \<^verbatim>\<open>has\<close>, as every
  handler does, raises a type error.
\<close>

theorem sold_set_lost_on_reload:
  "soldHas (roomValue demoBought) ''P'' = Inr True
   \<and> map_option soldPlayersOf (reloaded demoBought) = Some (Some (VObj []))
   \<and> map_option (\<lambda>v. soldHas v ''P'') (reloaded demoBought) = Some (Inl TypeError)"
  by (simp add: in_memory_sets reloaded_sets) (simp add: demoBought_eq)


end
